theory Spec2Isabelle
  imports Main "HOL-Library.Word"
begin

unbundle bit_operations_syntax

section \<open>Bit primitives (chess\_utils.h, chess\_utils.cpp)\<close>

text \<open>
  A bitboard is a \<open>uint64_t\<close>; bit \<open>k\<close> stands for square \<open>k\<close>, with
  \<open>a8 = 0\<close>, \<open>h8 = 7\<close>, \<open>a1 = 56\<close>, \<open>h1 = 63\<close>.  Moves are \<open>int\<close>
  values whose upper eight bits are never set; they are kept as 32-bit words.
\<close>

type_synonym U64 = "64 word"
type_synonym move = "32 word"

definition set_bit :: "U64 \<Rightarrow> nat \<Rightarrow> U64" where
  "set_bit bitboard square = bitboard OR push_bit square 1"

definition get_bit :: "U64 \<Rightarrow> nat \<Rightarrow> bool" where
  "get_bit bitboard square \<longleftrightarrow> bitboard AND push_bit square 1 \<noteq> 0"

definition pop_bit :: "U64 \<Rightarrow> nat \<Rightarrow> U64" where
  "pop_bit bitboard square = bitboard AND NOT (push_bit square 1)"

text \<open>
  \<open>bitScanForward\<close> is \<open>__builtin_ctzll\<close>, the index of the least significant set
  bit, and \<open>bitScanReverse\<close> is \<open>63 - __builtin_clzll\<close>, the index of the most
  significant one.  Both assert a non-empty argument; the callers below that can pass an
  empty bitboard model the failed assertion themselves.
\<close>

definition bitScanForward :: "U64 \<Rightarrow> nat" where
  "bitScanForward bb = length (takeWhile (\<lambda>n. \<not> bit bb n) [0..<64])"

definition bitScanReverse :: "U64 \<Rightarrow> nat" where
  "bitScanReverse bb = 63 - length (takeWhile (\<lambda>n. \<not> bit bb n) (rev [0..<64]))"

text \<open>Facts about the scans that the loops over bitboards need to terminate.\<close>

lemma bitScanForward_bit:
  assumes "bb \<noteq> 0"
  shows "bit bb (bitScanForward bb)" and "bitScanForward bb < 64"
proof -
  let ?P = "\<lambda>n. \<not> bit bb n"
  from assms obtain n where n: "bit bb n" by (auto simp: bit_eq_iff)
  then have "n < 64" using bit_imp_le_length [of bb n] by simp
  with n have "\<not> (\<forall>x\<in>set [0..<64]. ?P x)" by auto
  then have "takeWhile ?P [0..<64] \<noteq> [0..<64]"
    by (metis takeWhile_eq_all_conv)
  then have lt: "length (takeWhile ?P [0..<64]) < length [0..<64]"
    using length_takeWhile_le [of ?P "[0..<64]"]
    by (metis takeWhile_eq_take le_neq_implies_less take_all order_refl)
  from nth_length_takeWhile [OF lt] lt
  show "bit bb (bitScanForward bb)" and "bitScanForward bb < 64"
    by (simp_all add: bitScanForward_def)
qed

lemma pop_bit_less: "bit bb n \<Longrightarrow> unat (pop_bit bb n) < unat bb"
proof -
  assume b: "bit bb n"
  have "pop_bit bb n \<le> bb" by (simp add: pop_bit_def word_and_le2)
  moreover have "pop_bit bb n \<noteq> bb"
  proof
    assume "pop_bit bb n = bb"
    then have "bit (pop_bit bb n) n" using b by simp
    then show False by (simp add: pop_bit_def bit_simps)
  qed
  ultimately have "pop_bit bb n < bb" by simp
  then show ?thesis by (simp add: word_less_nat_alt)
qed

lemma pop_bit_bitScanForward_less:
  "bb \<noteq> 0 \<Longrightarrow> unat (pop_bit bb (bitScanForward bb)) < unat bb"
  by (rule pop_bit_less) (rule bitScanForward_bit)

section \<open>Pieces, squares and colours (chess\_utils.h)\<close>

text \<open>The enumerations are plain integers in the source; they are kept as numbers.\<close>

abbreviation (input) WP :: nat where "WP \<equiv> 0"
abbreviation (input) WN :: nat where "WN \<equiv> 1"
abbreviation (input) WB :: nat where "WB \<equiv> 2"
abbreviation (input) WR :: nat where "WR \<equiv> 3"
abbreviation (input) WQ :: nat where "WQ \<equiv> 4"
abbreviation (input) WK :: nat where "WK \<equiv> 5"
abbreviation (input) BP :: nat where "BP \<equiv> 6"
abbreviation (input) BN :: nat where "BN \<equiv> 7"
abbreviation (input) BB :: nat where "BB \<equiv> 8"
abbreviation (input) BR :: nat where "BR \<equiv> 9"
abbreviation (input) BQ :: nat where "BQ \<equiv> 10"
abbreviation (input) BK :: nat where "BK \<equiv> 11"
abbreviation (input) EMPTY :: nat where "EMPTY \<equiv> 12"

abbreviation (input) white :: nat where "white \<equiv> 0"
abbreviation (input) black :: nat where "black \<equiv> 1"
abbreviation (input) both :: nat where "both \<equiv> 2"

abbreviation (input) a8 :: nat where "a8 \<equiv> 0"
abbreviation (input) c8 :: nat where "c8 \<equiv> 2"
abbreviation (input) d8 :: nat where "d8 \<equiv> 3"
abbreviation (input) e8 :: nat where "e8 \<equiv> 4"
abbreviation (input) f8 :: nat where "f8 \<equiv> 5"
abbreviation (input) g8 :: nat where "g8 \<equiv> 6"
abbreviation (input) h8 :: nat where "h8 \<equiv> 7"
abbreviation (input) a7 :: nat where "a7 \<equiv> 8"
abbreviation (input) h7 :: nat where "h7 \<equiv> 15"
abbreviation (input) a2 :: nat where "a2 \<equiv> 48"
abbreviation (input) h2 :: nat where "h2 \<equiv> 55"
abbreviation (input) a1 :: nat where "a1 \<equiv> 56"
abbreviation (input) c1 :: nat where "c1 \<equiv> 58"
abbreviation (input) d1 :: nat where "d1 \<equiv> 59"
abbreviation (input) e1 :: nat where "e1 \<equiv> 60"
abbreviation (input) f1 :: nat where "f1 \<equiv> 61"
abbreviation (input) g1 :: nat where "g1 \<equiv> 62"
abbreviation (input) h1 :: nat where "h1 \<equiv> 63"
abbreviation (input) no_sq :: nat where "no_sq \<equiv> 64"

abbreviation (input) WK_c :: "32 word" where "WK_c \<equiv> 1"
abbreviation (input) WQ_c :: "32 word" where "WQ_c \<equiv> 2"
abbreviation (input) BK_c :: "32 word" where "BK_c \<equiv> 4"
abbreviation (input) BQ_c :: "32 word" where "BQ_c \<equiv> 8"

definition NOT_FILE_A :: U64 where "NOT_FILE_A = 18374403900871474942"
definition NOT_FILE_H :: U64 where "NOT_FILE_H = 9187201950435737471"
definition NOT_FILE_HG :: U64 where "NOT_FILE_HG = 4557430888798830399"
definition NOT_FILE_AB :: U64 where "NOT_FILE_AB = 18229723555195321596"

definition WHITE_PROMOTIONS :: "nat list" where "WHITE_PROMOTIONS = [WQ, WR, WB, WN]"
definition BLACK_PROMOTIONS :: "nat list" where "BLACK_PROMOTIONS = [BQ, BR, BB, BN]"

definition CASTLING_RIGHTS :: "32 word list" where
  "CASTLING_RIGHTS =
    [ 7, 15, 15, 15,  3, 15, 15, 11,
     15, 15, 15, 15, 15, 15, 15, 15,
     15, 15, 15, 15, 15, 15, 15, 15,
     15, 15, 15, 15, 15, 15, 15, 15,
     15, 15, 15, 15, 15, 15, 15, 15,
     15, 15, 15, 15, 15, 15, 15, 15,
     15, 15, 15, 15, 15, 15, 15, 15,
     13, 15, 15, 15, 12, 15, 15, 14]"

section \<open>Attack tables (chess\_utils.cpp)\<close>

text \<open>
  \<open>initGenerateRays\<close> fills \<open>rays[8][64]\<close> once; the table entry of a direction and
  a square below 64 is the value computed here.
\<close>

datatype ray_dir = UP | DOWN | LEFT | RIGHT | UPLEFT | UPRIGHT | DOWNLEFT | DOWNRIGHT

fun rays :: "ray_dir \<Rightarrow> nat \<Rightarrow> U64" where
  "rays DOWN square = push_bit square 0x0101010101010100"
| "rays UP square = drop_bit (63 - square) 0x0080808080808080"
| "rays RIGHT square = 2 * (push_bit (square OR 7) 1 - push_bit square 1)"
| "rays LEFT square = push_bit square 1 - push_bit (square AND 56) 1"
| "rays DOWNLEFT square =
     push_bit ((square div 8) * 8)
       (((\<lambda>m. drop_bit 1 m AND NOT_FILE_H) ^^ (7 - square mod 8)) 0x102040810204000)"
| "rays DOWNRIGHT square =
     push_bit ((square div 8) * 8)
       (((\<lambda>m. push_bit 1 m AND NOT_FILE_A) ^^ (square mod 8)) 0x8040201008040200)"
| "rays UPLEFT square =
     drop_bit ((7 - square div 8) * 8)
       (((\<lambda>m. drop_bit 1 m AND NOT_FILE_H) ^^ (7 - square mod 8)) 0x40201008040201)"
| "rays UPRIGHT square =
     drop_bit ((7 - square div 8) * 8)
       (((\<lambda>m. push_bit 1 m AND NOT_FILE_A) ^^ (square mod 8)) 0x2040810204080)"

definition getBishopMoves :: "nat \<Rightarrow> U64 \<Rightarrow> U64" where
  "getBishopMoves square blockers =
    (let attacks = 0;
         attacks = attacks OR rays UPLEFT square;
         attacks = (if rays UPLEFT square AND blockers \<noteq> 0
                    then attacks AND NOT (rays UPLEFT (bitScanReverse (rays UPLEFT square AND blockers)))
                    else attacks);
         attacks = attacks OR rays UPRIGHT square;
         attacks = (if rays UPRIGHT square AND blockers \<noteq> 0
                    then attacks AND NOT (rays UPRIGHT (bitScanReverse (rays UPRIGHT square AND blockers)))
                    else attacks);
         attacks = attacks OR rays DOWNRIGHT square;
         attacks = (if rays DOWNRIGHT square AND blockers \<noteq> 0
                    then attacks AND NOT (rays DOWNRIGHT (bitScanForward (rays DOWNRIGHT square AND blockers)))
                    else attacks);
         attacks = attacks OR rays DOWNLEFT square;
         attacks = (if rays DOWNLEFT square AND blockers \<noteq> 0
                    then attacks AND NOT (rays DOWNLEFT (bitScanForward (rays DOWNLEFT square AND blockers)))
                    else attacks)
     in attacks)"

definition getRooksMoves :: "nat \<Rightarrow> U64 \<Rightarrow> U64" where
  "getRooksMoves square blockers =
    (let attacks = 0;
         attacks = attacks OR rays UP square;
         attacks = (if rays UP square AND blockers \<noteq> 0
                    then attacks AND NOT (rays UP (bitScanReverse (rays UP square AND blockers)))
                    else attacks);
         attacks = attacks OR rays DOWN square;
         attacks = (if rays DOWN square AND blockers \<noteq> 0
                    then attacks AND NOT (rays DOWN (bitScanForward (rays DOWN square AND blockers)))
                    else attacks);
         attacks = attacks OR rays RIGHT square;
         attacks = (if rays RIGHT square AND blockers \<noteq> 0
                    then attacks AND NOT (rays RIGHT (bitScanForward (rays RIGHT square AND blockers)))
                    else attacks);
         attacks = attacks OR rays LEFT square;
         attacks = (if rays LEFT square AND blockers \<noteq> 0
                    then attacks AND NOT (rays LEFT (bitScanReverse (rays LEFT square AND blockers)))
                    else attacks)
     in attacks)"

definition getQueensMoves :: "nat \<Rightarrow> U64 \<Rightarrow> U64" where
  "getQueensMoves square blockers = getRooksMoves square blockers OR getBishopMoves square blockers"

definition generatePawnAttacks :: "nat \<Rightarrow> nat \<Rightarrow> U64" where
  "generatePawnAttacks side square =
    (let attacks = 0;
         bitboard = set_bit 0 square
     in if side = 0
        then (let attacks = (if drop_bit 7 bitboard AND NOT_FILE_A \<noteq> 0
                             then attacks OR drop_bit 7 bitboard else attacks);
                  attacks = (if drop_bit 9 bitboard AND NOT_FILE_H \<noteq> 0
                             then attacks OR drop_bit 9 bitboard else attacks)
              in attacks)
        else (let attacks = (if push_bit 7 bitboard AND NOT_FILE_H \<noteq> 0
                             then attacks OR push_bit 7 bitboard else attacks);
                  attacks = (if push_bit 9 bitboard AND NOT_FILE_A \<noteq> 0
                             then attacks OR push_bit 9 bitboard else attacks)
              in attacks))"

definition generateKingAttacks :: "nat \<Rightarrow> U64" where
  "generateKingAttacks square =
    (let attacks = 0;
         bitboard = set_bit 0 square;
         attacks = (if drop_bit 8 bitboard \<noteq> 0 then attacks OR drop_bit 8 bitboard else attacks);
         attacks = (if drop_bit 9 bitboard AND NOT_FILE_H \<noteq> 0 then attacks OR drop_bit 9 bitboard else attacks);
         attacks = (if drop_bit 7 bitboard AND NOT_FILE_A \<noteq> 0 then attacks OR drop_bit 7 bitboard else attacks);
         attacks = (if drop_bit 1 bitboard AND NOT_FILE_H \<noteq> 0 then attacks OR drop_bit 1 bitboard else attacks);
         attacks = (if push_bit 8 bitboard \<noteq> 0 then attacks OR push_bit 8 bitboard else attacks);
         attacks = (if push_bit 9 bitboard AND NOT_FILE_A \<noteq> 0 then attacks OR push_bit 9 bitboard else attacks);
         attacks = (if push_bit 7 bitboard AND NOT_FILE_H \<noteq> 0 then attacks OR push_bit 7 bitboard else attacks);
         attacks = (if push_bit 1 bitboard AND NOT_FILE_A \<noteq> 0 then attacks OR push_bit 1 bitboard else attacks)
     in attacks)"

definition generateKnightAttacks :: "nat \<Rightarrow> U64" where
  "generateKnightAttacks square =
    (let attacks = 0;
         bitboard = set_bit 0 square;
         attacks = (if drop_bit 17 bitboard AND NOT_FILE_H \<noteq> 0 then attacks OR drop_bit 17 bitboard else attacks);
         attacks = (if drop_bit 15 bitboard AND NOT_FILE_A \<noteq> 0 then attacks OR drop_bit 15 bitboard else attacks);
         attacks = (if drop_bit 10 bitboard AND NOT_FILE_HG \<noteq> 0 then attacks OR drop_bit 10 bitboard else attacks);
         attacks = (if drop_bit 6 bitboard AND NOT_FILE_AB \<noteq> 0 then attacks OR drop_bit 6 bitboard else attacks);
         attacks = (if push_bit 17 bitboard AND NOT_FILE_A \<noteq> 0 then attacks OR push_bit 17 bitboard else attacks);
         attacks = (if push_bit 15 bitboard AND NOT_FILE_H \<noteq> 0 then attacks OR push_bit 15 bitboard else attacks);
         attacks = (if push_bit 10 bitboard AND NOT_FILE_AB \<noteq> 0 then attacks OR push_bit 10 bitboard else attacks);
         attacks = (if push_bit 6 bitboard AND NOT_FILE_HG \<noteq> 0 then attacks OR push_bit 6 bitboard else attacks)
     in attacks)"

text \<open>\<open>initLeapersAttacks\<close> stores these values for every colour and square below 64.\<close>

definition pawn_attacks :: "nat \<Rightarrow> nat \<Rightarrow> U64" where
  "pawn_attacks side square = generatePawnAttacks side square"

definition knight_attacks :: "nat \<Rightarrow> U64" where
  "knight_attacks square = generateKnightAttacks square"

definition king_attacks :: "nat \<Rightarrow> U64" where
  "king_attacks square = generateKingAttacks square"

section \<open>The board (chess\_board.h, chess\_board.cpp)\<close>

text \<open>
  \<open>class ChessBoard\<close>: twelve piece bitboards, three occupancies, their single-slot
  copies, and the flags, all \<open>unsigned int\<close>.
\<close>

record ChessBoard =
  bitboards :: "U64 list"
  occupancy :: "U64 list"
  bitboards_copy :: "U64 list"
  occupancy_copy :: "U64 list"
  color :: "32 word"
  color_copy :: "32 word"
  enpassant :: "32 word"
  enpassant_copy :: "32 word"
  castling :: "32 word"
  castling_copy :: "32 word"
  num_moves :: "32 word"

definition copyBoard :: "ChessBoard \<Rightarrow> ChessBoard" where
  "copyBoard b = b\<lparr>bitboards_copy := bitboards b, occupancy_copy := occupancy b,
                    color_copy := color b, enpassant_copy := enpassant b,
                    castling_copy := castling b\<rparr>"

definition revertBoard :: "ChessBoard \<Rightarrow> ChessBoard" where
  "revertBoard b = b\<lparr>bitboards := bitboards_copy b, occupancy := occupancy_copy b,
                      color := color_copy b, enpassant := enpassant_copy b,
                      castling := castling_copy b\<rparr>"

text \<open>
  \<open>resetBoard\<close> clears the twelve bitboards and the white and black occupancies (its
  loop stops before \<open>both\<close>), with their copies, and the flags.
\<close>

definition resetBoard :: "ChessBoard \<Rightarrow> ChessBoard" where
  "resetBoard b =
     b\<lparr>bitboards := replicate 12 0,
       occupancy := (occupancy b)[white := 0, black := 0],
       bitboards_copy := replicate 12 0,
       occupancy_copy := (occupancy_copy b)[white := 0, black := 0],
       color := 0, color_copy := 2,
       enpassant := 64, enpassant_copy := 64,
       castling := 0, castling_copy := 0,
       num_moves := 0\<rparr>"

text \<open>
  The single statements by which the source changes a board: \<open>pop_bit\<close> and
  \<open>set_bit\<close> on \<open>bitboards[piece]\<close> and on \<open>occupancy[side]\<close>, the assignment
  \<open>occupancy[side] = 0ULL\<close>, \<open>occupancy[side] |= bitboards[piece]\<close>,
  \<open>occupancy[both] = occupancy[white] | occupancy[black]\<close> and
  \<open>castling &= CASTLING_RIGHTS[square]\<close>.
\<close>

definition pop_bitboard :: "ChessBoard \<Rightarrow> nat \<Rightarrow> nat \<Rightarrow> ChessBoard" where
  "pop_bitboard board piece square =
     board\<lparr>bitboards := (bitboards board)[piece := pop_bit (bitboards board ! piece) square]\<rparr>"

definition set_bitboard :: "ChessBoard \<Rightarrow> nat \<Rightarrow> nat \<Rightarrow> ChessBoard" where
  "set_bitboard board piece square =
     board\<lparr>bitboards := (bitboards board)[piece := set_bit (bitboards board ! piece) square]\<rparr>"

definition pop_occupancy :: "ChessBoard \<Rightarrow> nat \<Rightarrow> nat \<Rightarrow> ChessBoard" where
  "pop_occupancy board side square =
     board\<lparr>occupancy := (occupancy board)[side := pop_bit (occupancy board ! side) square]\<rparr>"

definition set_occupancy :: "ChessBoard \<Rightarrow> nat \<Rightarrow> nat \<Rightarrow> ChessBoard" where
  "set_occupancy board side square =
     board\<lparr>occupancy := (occupancy board)[side := set_bit (occupancy board ! side) square]\<rparr>"

definition clear_occupancy :: "ChessBoard \<Rightarrow> nat \<Rightarrow> ChessBoard" where
  "clear_occupancy board side = board\<lparr>occupancy := (occupancy board)[side := 0]\<rparr>"

definition or_occupancy :: "ChessBoard \<Rightarrow> nat \<Rightarrow> nat \<Rightarrow> ChessBoard" where
  "or_occupancy board side piece =
     board\<lparr>occupancy := (occupancy board)[side := occupancy board ! side OR bitboards board ! piece]\<rparr>"

definition join_occupancy :: "ChessBoard \<Rightarrow> ChessBoard" where
  "join_occupancy board =
     board\<lparr>occupancy := (occupancy board)[both := occupancy board ! white OR occupancy board ! black]\<rparr>"

definition and_castling :: "ChessBoard \<Rightarrow> nat \<Rightarrow> ChessBoard" where
  "and_castling board square = board\<lparr>castling := castling board AND CASTLING_RIGHTS ! square\<rparr>"

text \<open>
  The two loops \<open>occupancy[white] |= bitboards[piece]\<close> and
  \<open>occupancy[black] |= bitboards[piece]\<close> with the assignment of \<open>occupancy[both]\<close>,
  as \<open>parseFEN\<close> and \<open>MakeMove\<close> both have them.
\<close>

definition fill_occupancy :: "ChessBoard \<Rightarrow> ChessBoard" where
  "fill_occupancy board =
     (let board = foldl (\<lambda>board piece. or_occupancy board white piece) board [WP..<WK + 1];
          board = foldl (\<lambda>board piece. or_occupancy board black piece) board [BP..<BK + 1]
      in join_occupancy board)"

definition isSquareAttacked :: "ChessBoard \<Rightarrow> nat \<Rightarrow> nat \<Rightarrow> bool" where
  "isSquareAttacked b square side \<longleftrightarrow>
     (if side = white then pawn_attacks black square AND bitboards b ! WP
      else pawn_attacks white square AND bitboards b ! BP) \<noteq> 0 \<or>
     knight_attacks square AND (if side = white then bitboards b ! WN else bitboards b ! BN) \<noteq> 0 \<or>
     getBishopMoves square (occupancy b ! both)
       AND (if side = white then bitboards b ! WB else bitboards b ! BB) \<noteq> 0 \<or>
     getRooksMoves square (occupancy b ! both)
       AND (if side = white then bitboards b ! WR else bitboards b ! BR) \<noteq> 0 \<or>
     getQueensMoves square (occupancy b ! both)
       AND (if side = white then bitboards b ! WQ else bitboards b ! BQ) \<noteq> 0 \<or>
     king_attacks square AND (if side = white then bitboards b ! WK else bitboards b ! BK) \<noteq> 0"

text \<open>
  \<open>isThereCheck\<close> scans the king's bitboard; on a board without that king the
  assertion of \<open>bitScanForward\<close> fails, which is the result \<open>None\<close>.
\<close>

definition isThereCheck :: "ChessBoard \<Rightarrow> nat \<Rightarrow> bool option" where
  "isThereCheck b side =
     (let king = (if side = white then bitboards b ! WK else bitboards b ! BK)
      in if king = 0 then None
         else Some (isSquareAttacked b (bitScanForward king) (side XOR 1)))"

section \<open>Reading a position (chess\_board.cpp)\<close>

definition charToPieceEnum :: "char \<Rightarrow> nat" where
  "charToPieceEnum pieceChar =
     (if pieceChar = CHR ''P'' then WP
      else if pieceChar = CHR ''N'' then WN
      else if pieceChar = CHR ''B'' then WB
      else if pieceChar = CHR ''R'' then WR
      else if pieceChar = CHR ''Q'' then WQ
      else if pieceChar = CHR ''K'' then WK
      else if pieceChar = CHR ''p'' then BP
      else if pieceChar = CHR ''n'' then BN
      else if pieceChar = CHR ''b'' then BB
      else if pieceChar = CHR ''r'' then BR
      else if pieceChar = CHR ''q'' then BQ
      else if pieceChar = CHR ''k'' then BK
      else EMPTY)"

text \<open>
  The \<open>fen\<close> pointer is the rest of the string; \<open>*fen\<close> at its end is the
  terminating NUL.  Reading behind the terminator is the result \<open>None\<close>, as is a letter
  that is no piece, which indexes the bitboards at \<open>EMPTY\<close>.
\<close>

definition peek :: "string \<Rightarrow> char" where
  "peek fen = (case fen of [] \<Rightarrow> CHR 0x00 | c # _ \<Rightarrow> c)"

definition is_letter :: "char \<Rightarrow> bool" where
  "is_letter c \<longleftrightarrow>
     ((of_char CHR ''a'' :: nat) \<le> of_char c \<and> (of_char c :: nat) \<le> of_char CHR ''z'') \<or>
     ((of_char CHR ''A'' :: nat) \<le> of_char c \<and> (of_char c :: nat) \<le> of_char CHR ''Z'')"

definition is_digit :: "char \<Rightarrow> bool" where
  "is_digit c \<longleftrightarrow> (of_char CHR ''0'' :: nat) \<le> of_char c \<and> (of_char c :: nat) \<le> of_char CHR ''9''"

text \<open>
  The body of the loop over the files of one rank: it returns the file counter as the
  body leaves it (before the loop's own increment), the pointer and the bitboards.
\<close>

definition placement_step :: "int \<Rightarrow> int \<Rightarrow> string \<Rightarrow> U64 list \<Rightarrow> (int \<times> string \<times> U64 list) option" where
  "placement_step rank file fen bbs =
     (let square = nat (rank * 8 + file)
      in case (if is_letter (peek fen)
               then (let piece = charToPieceEnum (peek fen)
                     in if piece = EMPTY then None
                        else Some (tl fen, bbs[piece := set_bit (bbs ! piece) square]))
               else Some (fen, bbs)) of
           None \<Rightarrow> None
         | Some (fen, bbs) \<Rightarrow>
             (let (file, fen) =
                    (if is_digit (peek fen)
                     then
                       (let offset = of_char (peek fen) - of_char CHR ''0'';
                            piece = foldl (\<lambda>piece bb_piece.
                                             if get_bit (bbs ! bb_piece) square then int bb_piece
                                             else piece)
                                      (- 1) [WP..<BK + 1];
                            file = (if piece = - 1 then file - 1 else file);
                            file = file + offset
                        in (file, tl fen))
                     else (file, fen));
                  fen = (if peek fen = CHR ''/'' then tl fen else fen)
              in Some (file, fen, bbs)))"

lemma placement_step_progress:
  assumes "placement_step rank file fen bbs = Some (file', fen', bbs')"
  shows "length fen' < length fen \<or> (length fen' = length fen \<and> file' = file)"
proof -
  have tl_less: "\<And>cs :: string. cs \<noteq> [] \<Longrightarrow> length (tl cs) < length cs"
    by (case_tac cs) simp_all
  have l: "\<And>cs. is_letter (peek cs) \<Longrightarrow> cs \<noteq> []"
    by (auto simp: is_letter_def peek_def)
  have d: "\<And>cs. is_digit (peek cs) \<Longrightarrow> cs \<noteq> []"
    by (auto simp: is_digit_def peek_def)
  have sl: "\<And>cs. peek cs = CHR ''/'' \<Longrightarrow> cs \<noteq> []"
    by (auto simp: peek_def)
  from assms show ?thesis
    by (auto simp: placement_step_def Let_def split: if_splits option.splits prod.splits
          dest!: l d sl dest: tl_less)
qed

function files_loop :: "int \<Rightarrow> int \<Rightarrow> string \<Rightarrow> U64 list \<Rightarrow> (string \<times> U64 list) option" where
  "files_loop rank file fen bbs =
     (if file < 8
      then (case placement_step rank file fen bbs of
              None \<Rightarrow> None
            | Some (file', fen', bbs') \<Rightarrow> files_loop rank (file' + 1) fen' bbs')
      else Some (fen, bbs))"
  by pat_completeness auto
termination
proof (relation "measures [\<lambda>(rank, file, fen, bbs). length fen,
                            \<lambda>(rank, file, fen, bbs). nat (8 - file)]", goal_cases)
  case 1
  show ?case by simp
next
  case (2 rank fl fen bbs x2 fl' y fen' bbs')
  then have "placement_step rank fl fen bbs = Some (fl', fen', bbs')" by simp
  from placement_step_progress [OF this] 2(1) show ?case by auto
qed

fun ranks_loop :: "nat list \<Rightarrow> string \<Rightarrow> U64 list \<Rightarrow> (string \<times> U64 list) option" where
  "ranks_loop [] fen bbs = Some (fen, bbs)"
| "ranks_loop (rank # ranks) fen bbs =
     (case files_loop (int rank) 0 fen bbs of
        None \<Rightarrow> None
      | Some (fen, bbs) \<Rightarrow> ranks_loop ranks fen bbs)"

text \<open>The loop over the castling field, up to the space that ends it.\<close>

fun castling_loop :: "string \<Rightarrow> 32 word \<Rightarrow> (string \<times> 32 word) option" where
  "castling_loop [] c = None"
| "castling_loop (ch # fen) c =
     (if ch = CHR '' '' then Some (ch # fen, c)
      else castling_loop fen
             (if ch = CHR ''K'' then c OR WK_c
              else if ch = CHR ''Q'' then c OR WQ_c
              else if ch = CHR ''k'' then c OR BK_c
              else if ch = CHR ''q'' then c OR BQ_c
              else c))"

definition parseFEN :: "ChessBoard \<Rightarrow> string \<Rightarrow> ChessBoard option" where
  "parseFEN board0 fen =
     (let board = resetBoard board0
      in case ranks_loop [0..<8] fen (bitboards board) of
           None \<Rightarrow> None
         | Some (fen, bbs) \<Rightarrow>
             (let board = board\<lparr>bitboards := bbs\<rparr>
              in if length fen < 3 then None
                 else
                   (let fen = tl fen;
                        board = board\<lparr>color := (if peek fen = CHR ''w'' then 0 else 1)\<rparr>;
                        fen = drop 2 fen
                    in case castling_loop fen (castling board) of
                         None \<Rightarrow> None
                       | Some (fen, c) \<Rightarrow>
                           (let board = board\<lparr>castling := c\<rparr>;
                                fen = tl fen
                            in if fen = [] then None
                               else
                                 (let board =
                                        (if peek fen \<noteq> CHR ''-''
                                         then
                                           (let file = of_char (peek fen) - of_char CHR ''a'';
                                                rank = 8 - (of_char (peek (tl fen)) - of_char CHR ''0'')
                                            in board\<lparr>enpassant := of_int (rank * 8 + file)\<rparr>)
                                         else board\<lparr>enpassant := 64\<rparr>)
                                  in Some (fill_occupancy board))))))"

section \<open>Move lists (chess\_moves.h, chess\_moves.cpp)\<close>

text \<open>
  \<open>class Moves\<close> holds \<open>int moves[265]\<close> and \<open>unsigned int moves_count\<close>.
\<close>

text \<open>
  The packed move: source in bits 0-5, target in bits 6-11, piece in bits 12-15, promoted
  piece in bits 16-19, then the capture, double push, en passant and castling flags.
\<close>

definition get_move_source :: "move \<Rightarrow> nat" where
  "get_move_source m = unat (m AND 0x3f)"

definition get_move_target :: "move \<Rightarrow> nat" where
  "get_move_target m = unat (drop_bit 6 (m AND 0xfc0))"

definition get_move_piece :: "move \<Rightarrow> nat" where
  "get_move_piece m = unat (drop_bit 12 (m AND 0xf000))"

definition get_move_promoted :: "move \<Rightarrow> nat" where
  "get_move_promoted m = unat (drop_bit 16 (m AND 0xf0000))"

definition get_move_capture :: "move \<Rightarrow> move" where
  "get_move_capture m = m AND 0x100000"

definition get_move_double :: "move \<Rightarrow> move" where
  "get_move_double m = m AND 0x200000"

definition get_move_enpassant :: "move \<Rightarrow> move" where
  "get_move_enpassant m = m AND 0x400000"

definition get_move_castling :: "move \<Rightarrow> move" where
  "get_move_castling m = m AND 0x800000"

definition encode_move :: "nat \<Rightarrow> nat \<Rightarrow> nat \<Rightarrow> nat \<Rightarrow> nat \<Rightarrow> nat \<Rightarrow> nat \<Rightarrow> nat \<Rightarrow> move" where
  "encode_move from to piece promoted capture double_p enpassant_f castling_f =
     of_nat from OR push_bit 6 (of_nat to) OR push_bit 12 (of_nat piece) OR
     push_bit 16 (of_nat promoted) OR push_bit 20 (of_nat capture) OR
     push_bit 21 (of_nat double_p) OR push_bit 22 (of_nat enpassant_f) OR
     push_bit 23 (of_nat castling_f)"

record Moves =
  moves :: "move list"
  moves_count :: nat

definition add_move :: "Moves \<Rightarrow> move \<Rightarrow> Moves" where
  "add_move mv m =
     (if moves_count mv < 256
      then mv\<lparr>moves := (moves mv)[moves_count mv := m], moves_count := moves_count mv + 1\<rparr>
      else mv)"

text \<open>What \<open>add_move\<close> prints: nothing, or the diagnostic of the full list.\<close>

definition add_move_output :: "Moves \<Rightarrow> move \<Rightarrow> string" where
  "add_move_output mv m =
     (if moves_count mv < 256 then [] else ''Array is full. Cannot add more moves.'' @ [CHR 0x0A])"

text \<open>A run of \<open>add_move\<close> calls after \<open>generate_moves\<close> has reset the count.\<close>

definition add_moves :: "Moves \<Rightarrow> move list \<Rightarrow> Moves" where
  "add_moves mv ms = foldl add_move (mv\<lparr>moves_count := 0\<rparr>) ms"

section \<open>Move generation (chess\_moves.cpp)\<close>

text \<open>
  The loop over the target squares of one pawn's capture set, in
  \<open>generateMovesPawns\<close>.
\<close>

function pawn_attacks_loop :: "nat \<Rightarrow> nat \<Rightarrow> nat \<Rightarrow> nat list \<Rightarrow> U64 \<Rightarrow> Moves \<Rightarrow> Moves" where
  "pawn_attacks_loop side from_square piece promotions attacks mv =
     (if attacks = 0 then mv
      else
        let to_square = bitScanForward attacks;
            is_promotion_allowed =
              (if side = white then a7 \<le> from_square \<and> from_square \<le> h7
               else a2 \<le> from_square \<and> from_square \<le> h2);
            mv = (if is_promotion_allowed
                  then foldl (\<lambda>mv p. add_move mv (encode_move from_square to_square piece p 1 0 0 0))
                         mv promotions
                  else add_move mv (encode_move from_square to_square piece 0 1 0 0 0))
        in pawn_attacks_loop side from_square piece promotions (pop_bit attacks to_square) mv)"
  by pat_completeness auto
termination
  by (relation "measure (\<lambda>(side, from_square, piece, promotions, attacks, mv). unat attacks)")
    (auto simp: pop_bit_bitScanForward_less)

text \<open>One iteration of the loop over the pawns, for the pawn on \<open>from_square\<close>.\<close>

definition pawn_moves_from :: "ChessBoard \<Rightarrow> nat \<Rightarrow> U64 list \<Rightarrow> nat \<Rightarrow> Moves \<Rightarrow> Moves" where
  "pawn_moves_from board side occ from_square mv =
     (let piece = (if side = white then WP else BP);
          direction = (if side = white then - 8 else 8 :: int);
          promotions = (if side = white then WHITE_PROMOTIONS else BLACK_PROMOTIONS);
          to_square = int from_square + direction;
          is_move_push_allowed = (if side = white then \<not> to_square < 0 else \<not> to_square > 63);
          mv = (if is_move_push_allowed \<and> \<not> get_bit (occ ! both) (nat to_square)
                then
                  (let is_promotion_allowed =
                         (if side = white then a7 \<le> from_square \<and> from_square \<le> h7
                          else a2 \<le> from_square \<and> from_square \<le> h2)
                   in if is_promotion_allowed
                      then foldl (\<lambda>mv p. add_move mv
                                   (encode_move from_square (nat to_square) piece p 0 0 0 0))
                             mv promotions
                      else
                        (let mv = add_move mv (encode_move from_square (nat to_square) piece 0 0 0 0 0);
                             is_double_allowed =
                               (if side = white then a2 \<le> from_square \<and> from_square \<le> h2
                                else a7 \<le> from_square \<and> from_square \<le> h7)
                         in if is_double_allowed \<and>
                               \<not> get_bit (occ ! both) (nat (to_square + direction))
                            then add_move mv
                                   (encode_move from_square (nat (to_square + direction)) piece 0 0 1 0 0)
                            else mv))
                else mv);
          attacks = pawn_attacks side from_square AND occ ! (side XOR 1);
          mv = pawn_attacks_loop side from_square piece promotions attacks mv;
          mv = (if enpassant board \<noteq> 64
                then
                  (let enpassant_attacks =
                         pawn_attacks side from_square AND push_bit (unat (enpassant board)) 1
                   in if enpassant_attacks \<noteq> 0
                      then add_move mv
                             (encode_move from_square (bitScanForward enpassant_attacks) piece 0 1 0 1 0)
                      else mv)
                else mv)
      in mv)"

function pawns_loop :: "ChessBoard \<Rightarrow> nat \<Rightarrow> U64 list \<Rightarrow> U64 \<Rightarrow> Moves \<Rightarrow> Moves" where
  "pawns_loop board side occ bitboard mv =
     (if bitboard = 0 then mv
      else
        let from_square = bitScanForward bitboard;
            mv = pawn_moves_from board side occ from_square mv
        in pawns_loop board side occ (pop_bit bitboard from_square) mv)"
  by pat_completeness auto
termination
  by (relation "measure (\<lambda>(board, side, occ, bitboard, mv). unat bitboard)")
    (auto simp: pop_bit_bitScanForward_less)

definition generateMovesPawns :: "ChessBoard \<Rightarrow> nat \<Rightarrow> U64 list \<Rightarrow> Moves \<Rightarrow> Moves" where
  "generateMovesPawns board side occ mv =
     (let bitboard = (if side = white then bitboards board ! WP else bitboards board ! BP)
      in pawns_loop board side occ bitboard mv)"

text \<open>
  The loop over the target squares of an attack set, as it stands in
  \<open>generateMovesKings\<close> and in \<open>generateMovesPiece\<close>: a quiet move if the
  target is not on the opponent's occupancy \<open>enemy\<close>, a capture otherwise.
\<close>

function attacks_loop :: "nat \<Rightarrow> nat \<Rightarrow> U64 \<Rightarrow> U64 \<Rightarrow> Moves \<Rightarrow> Moves" where
  "attacks_loop from_square piece enemy attacks mv =
     (if attacks = 0 then mv
      else
        let to_square = bitScanForward attacks;
            mv = (if \<not> get_bit enemy to_square
                  then add_move mv (encode_move from_square to_square piece 0 0 0 0 0)
                  else add_move mv (encode_move from_square to_square piece 0 1 0 0 0))
        in attacks_loop from_square piece enemy (pop_bit attacks to_square) mv)"
  by pat_completeness auto
termination
  by (relation "measure (\<lambda>(from_square, piece, enemy, attacks, mv). unat attacks)")
    (auto simp: pop_bit_bitScanForward_less)

function kings_loop :: "nat \<Rightarrow> U64 list \<Rightarrow> nat \<Rightarrow> U64 \<Rightarrow> Moves \<Rightarrow> Moves" where
  "kings_loop side occ piece bitboard mv =
     (if bitboard = 0 then mv
      else
        let from_square = bitScanForward bitboard;
            attacks = king_attacks from_square AND
                        (if side = white then NOT (occ ! white) else NOT (occ ! black));
            mv = attacks_loop from_square piece
                   (if side = white then occ ! black else occ ! white) attacks mv
        in kings_loop side occ piece (pop_bit bitboard from_square) mv)"
  by pat_completeness auto
termination
  by (relation "measure (\<lambda>(side, occ, piece, bitboard, mv). unat bitboard)")
    (auto simp: pop_bit_bitScanForward_less)

definition generateMovesKings :: "ChessBoard \<Rightarrow> nat \<Rightarrow> U64 list \<Rightarrow> Moves \<Rightarrow> Moves" where
  "generateMovesKings board side occ mv =
     (let bitboard = (if side = white then bitboards board ! WK else bitboards board ! BK);
          piece = (if side = white then WK else BK);
          mv = kings_loop side occ piece bitboard mv;
          square_kings_side = (if side = white then f1 else f8);
          square_queens_side = (if side = white then d1 else d8);
          mv = (if castling board AND (if side = white then WK_c else BK_c) \<noteq> 0
                then
                  (if \<not> get_bit (occupancy board ! both) square_kings_side \<and>
                      \<not> get_bit (occupancy board ! both) (square_kings_side + 1)
                   then
                     (if \<not> isSquareAttacked board (square_kings_side - 1) (side XOR 1) \<and>
                         \<not> isSquareAttacked board square_kings_side (side XOR 1)
                      then add_move mv
                             (encode_move (square_kings_side - 1) (square_kings_side + 1)
                                piece 0 0 0 0 1)
                      else mv)
                   else mv)
                else mv);
          mv = (if castling board AND (if side = white then WQ_c else BQ_c) \<noteq> 0
                then
                  (if \<not> get_bit (occupancy board ! both) square_queens_side \<and>
                      \<not> get_bit (occupancy board ! both) (square_queens_side - 1) \<and>
                      \<not> get_bit (occupancy board ! both) (square_queens_side - 2)
                   then
                     (if \<not> isSquareAttacked board (square_queens_side + 1) (side XOR 1) \<and>
                         \<not> isSquareAttacked board square_queens_side (side XOR 1)
                      then add_move mv
                             (encode_move (square_queens_side + 1) (square_queens_side - 1)
                                piece 0 0 0 0 1)
                      else mv)
                   else mv)
                else mv)
      in mv)"

text \<open>
  \<open>generateMovesPiece\<close> is called for knights, bishops, rooks and queens only; for
  another piece the source leaves \<open>attacks\<close> as it was, which is written here as the
  empty set.
\<close>

function pieces_loop :: "U64 list \<Rightarrow> nat \<Rightarrow> U64 \<Rightarrow> Moves \<Rightarrow> Moves" where
  "pieces_loop occ piece bitboard mv =
     (if bitboard = 0 then mv
      else
        let from_square = bitScanForward bitboard;
            attacks =
              (if piece = WN \<or> piece = BN then knight_attacks from_square
               else if piece = WB \<or> piece = BB then getBishopMoves from_square (occ ! both)
               else if piece = WR \<or> piece = BR then getRooksMoves from_square (occ ! both)
               else if piece = WQ \<or> piece = BQ then getQueensMoves from_square (occ ! both)
               else 0);
            attacks = attacks AND (if piece < 6 then NOT (occ ! white) else NOT (occ ! black));
            mv = attacks_loop from_square piece
                   (if piece < 6 then occ ! black else occ ! white) attacks mv
        in pieces_loop occ piece (pop_bit bitboard from_square) mv)"
  by pat_completeness auto
termination
  by (relation "measure (\<lambda>(occ, piece, bitboard, mv). unat bitboard)")
    (auto simp: pop_bit_bitScanForward_less)

definition generateMovesPiece :: "ChessBoard \<Rightarrow> U64 list \<Rightarrow> nat \<Rightarrow> Moves \<Rightarrow> Moves" where
  "generateMovesPiece board occ piece mv = pieces_loop occ piece (bitboards board ! piece) mv"

definition generate_moves :: "ChessBoard \<Rightarrow> Moves \<Rightarrow> Moves" where
  "generate_moves board mv =
     (let mv = mv\<lparr>moves_count := 0\<rparr>;
          occ = occupancy board
      in if color board = 0
         then
           (let mv = generateMovesPawns board white occ mv;
                mv = generateMovesKings board white occ mv;
                mv = generateMovesPiece board occ WN mv;
                mv = generateMovesPiece board occ WB mv;
                mv = generateMovesPiece board occ WR mv;
                mv = generateMovesPiece board occ WQ mv
            in mv)
         else
           (let mv = generateMovesPawns board black occ mv;
                mv = generateMovesKings board black occ mv;
                mv = generateMovesPiece board occ BN mv;
                mv = generateMovesPiece board occ BB mv;
                mv = generateMovesPiece board occ BR mv;
                mv = generateMovesPiece board occ BQ mv
            in mv))"

text \<open>The moves a generation leaves for its callers: the first \<open>moves_count\<close> slots.\<close>

definition generated :: "ChessBoard \<Rightarrow> Moves \<Rightarrow> move list" where
  "generated board mv = take (moves_count (generate_moves board mv)) (moves (generate_moves board mv))"

text \<open>
  The side for which \<open>generate_moves\<close> generates, and a property of all the moves
  that a move list holds below its count.
\<close>

definition mover :: "ChessBoard \<Rightarrow> nat" where
  "mover board = (if color board = 0 then white else black)"

definition all_generated :: "(move \<Rightarrow> bool) \<Rightarrow> Moves \<Rightarrow> bool" where
  "all_generated P mv \<longleftrightarrow> (\<forall>m \<in> set (take (moves_count mv) (moves mv)). P m)"

section \<open>Making a move (chess\_game.cpp)\<close>

text \<open>
  The loop over the opponent's six bitboards that removes the captured piece and stops
  at the first bitboard holding the target square.
\<close>

fun capture_loop :: "ChessBoard \<Rightarrow> nat \<Rightarrow> nat list \<Rightarrow> ChessBoard" where
  "capture_loop board to_square [] = board"
| "capture_loop board to_square (piece # pieces) =
     (if get_bit (bitboards board ! piece) to_square then pop_bitboard board piece to_square
      else capture_loop board to_square pieces)"

text \<open>The blocks of \<open>MakeMove\<close>, in the order of the source.\<close>

definition move_capture :: "ChessBoard \<Rightarrow> move \<Rightarrow> nat \<Rightarrow> nat \<Rightarrow> ChessBoard" where
  "move_capture board capture side to_square =
     (if capture \<noteq> 0
      then
        (let range = (if side = 0 then 6 else 0);
             board = capture_loop board to_square [range..<range + 6]
         in pop_occupancy board (side XOR 1) to_square)
      else board)"

definition move_promotion :: "ChessBoard \<Rightarrow> nat \<Rightarrow> nat \<Rightarrow> nat \<Rightarrow> ChessBoard" where
  "move_promotion board promoted piece to_square =
     (if promoted \<noteq> 0
      then
        (let board = pop_bitboard board piece to_square
         in set_bitboard board promoted to_square)
      else board)"

definition move_enpassant :: "ChessBoard \<Rightarrow> move \<Rightarrow> nat \<Rightarrow> nat \<Rightarrow> ChessBoard" where
  "move_enpassant board enpassant_f side to_square =
     (if enpassant_f \<noteq> 0
      then
        (let board = (if side = white then pop_bitboard board BP (to_square + 8)
                      else pop_bitboard board WP (to_square - 8))
         in board\<lparr>enpassant := 64\<rparr>)
      else board)"

definition move_castling :: "ChessBoard \<Rightarrow> move \<Rightarrow> nat \<Rightarrow> ChessBoard" where
  "move_castling board castling_f to_square =
     (if castling_f \<noteq> 0
      then
        (if to_square = g1 then set_bitboard (pop_bitboard board WR h1) WR f1
         else if to_square = c1 then set_bitboard (pop_bitboard board WR a1) WR d1
         else if to_square = g8 then set_bitboard (pop_bitboard board BR h8) BR f8
         else if to_square = c8 then set_bitboard (pop_bitboard board BR a8) BR d8
         else board)
      else board)"

definition update_occupancy :: "ChessBoard \<Rightarrow> ChessBoard" where
  "update_occupancy board =
     (let board = clear_occupancy board white;
          board = clear_occupancy board black
      in fill_occupancy board)"

definition move_accept :: "ChessBoard \<Rightarrow> move \<Rightarrow> nat \<Rightarrow> nat \<Rightarrow> ChessBoard" where
  "move_accept board double_p side from_square =
     (let board = board\<lparr>enpassant :=
                    (if double_p \<noteq> 0
                     then (if side = white then of_int (int from_square - 8)
                           else of_nat (from_square + 8))
                     else 64)\<rparr>;
          board = board\<lparr>color := color board XOR 1\<rparr>
      in board\<lparr>num_moves := num_moves board + 1\<rparr>)"

text \<open>
  \<open>MakeMove\<close> returns whether the move was accepted, with the board it leaves.  The
  result is \<open>None\<close> where the source leaves defined behaviour: a piece or promoted
  piece beyond the twelve bitboards, an en-passant shift outside the 64 bits, and the
  failed assertion of \<open>isThereCheck\<close> on a board without the mover's king.
\<close>

definition MakeMove :: "ChessBoard \<Rightarrow> move \<Rightarrow> (bool \<times> ChessBoard) option" where
  "MakeMove board0 m =
    (let board = copyBoard board0;
         from_square = get_move_source m;
         to_square = get_move_target m;
         piece = get_move_piece m;
         promoted = get_move_promoted m;
         capture = get_move_capture m;
         enpassant_f = get_move_enpassant m;
         castling_f = get_move_castling m;
         double_p = get_move_double m;
         side = (if piece < 6 then white else black)
     in
     if 12 \<le> piece \<or> 12 \<le> promoted then None
     else if enpassant_f \<noteq> 0 \<and> (if side = white then 64 \<le> to_square + 8 else to_square < 8)
     then None
     else
      (let board = pop_bitboard board piece from_square;
           board = set_bitboard board piece to_square;
           board = pop_occupancy board side from_square;
           board = set_occupancy board side to_square;
           board = move_capture board capture side to_square;
           board = move_promotion board promoted piece to_square;
           board = move_enpassant board enpassant_f side to_square;
           board = move_castling board castling_f to_square;
           board = and_castling board from_square;
           board = and_castling board to_square;
           board = update_occupancy board
       in case isThereCheck board side of
            None \<Rightarrow> None
          | Some True \<Rightarrow> Some (False, revertBoard board)
          | Some False \<Rightarrow> Some (True, move_accept board double_p side from_square)))"

text \<open>
  Two views of \<open>MakeMove\<close> for the proofs: the side that moves, and the board on
  which the legality check runs, that is the board after the statements from the
  snapshot to the rebuilt occupancies.
\<close>

definition move_side :: "move \<Rightarrow> nat" where
  "move_side m = (if get_move_piece m < 6 then white else black)"

definition moved_board :: "ChessBoard \<Rightarrow> move \<Rightarrow> ChessBoard" where
  "moved_board board0 m =
    (let board = copyBoard board0;
         from_square = get_move_source m;
         to_square = get_move_target m;
         piece = get_move_piece m;
         side = (if piece < 6 then white else black);
         board = pop_bitboard board piece from_square;
         board = set_bitboard board piece to_square;
         board = pop_occupancy board side from_square;
         board = set_occupancy board side to_square;
         board = move_capture board (get_move_capture m) side to_square;
         board = move_promotion board (get_move_promoted m) piece to_square;
         board = move_enpassant board (get_move_enpassant m) side to_square;
         board = move_castling board (get_move_castling m) to_square;
         board = and_castling board from_square;
         board = and_castling board to_square
     in update_occupancy board)"

text \<open>The single-slot snapshot of a board, with the move counter that it leaves out.\<close>

definition snapshot ::
  "ChessBoard \<Rightarrow> U64 list \<times> U64 list \<times> 32 word \<times> 32 word \<times> 32 word \<times> 32 word" where
  "snapshot b = (bitboards_copy b, occupancy_copy b, color_copy b, enpassant_copy b,
                 castling_copy b, num_moves b)"

text \<open>
  The occupancy invariant, and the boards a game can hold: those \<open>parseFEN\<close> returns
  on a board object (whose occupancy array has its three entries), and those a call of
  \<open>MakeMove\<close> leaves, whether it accepts the move or not.
\<close>

definition occupancy_consistent :: "ChessBoard \<Rightarrow> bool" where
  "occupancy_consistent b \<longleftrightarrow>
     occupancy b ! white = bitboards b ! WP OR bitboards b ! WN OR bitboards b ! WB OR
                           bitboards b ! WR OR bitboards b ! WQ OR bitboards b ! WK \<and>
     occupancy b ! black = bitboards b ! BP OR bitboards b ! BN OR bitboards b ! BB OR
                           bitboards b ! BR OR bitboards b ! BQ OR bitboards b ! BK \<and>
     occupancy b ! both = occupancy b ! white OR occupancy b ! black"

inductive reachable :: "ChessBoard \<Rightarrow> bool" where
  parsed: "length (occupancy board0) = 3 \<Longrightarrow> parseFEN board0 fen = Some board \<Longrightarrow> reachable board"
| moved: "reachable board \<Longrightarrow> MakeMove board m = Some (accepted, board') \<Longrightarrow> reachable board'"

section \<open>Parsing a move string (chess\_game.cpp)\<close>

text \<open>
  A C string in a zero-filled buffer, as \<open>startUCI\<close> and \<open>startGameTER\<close> pass it:
  the characters, then NUL.
\<close>

definition char_at :: "string \<Rightarrow> nat \<Rightarrow> char" where
  "char_at str i = (if i < length str then str ! i else CHR 0x00)"

text \<open>
  The range-based loop \<open>for (auto &move : moves.moves)\<close> of \<open>parseMove\<close>: it visits
  the slots of the array in order, all of them.
\<close>

fun parseMove_loop :: "int \<Rightarrow> int \<Rightarrow> char \<Rightarrow> move list \<Rightarrow> move" where
  "parseMove_loop from_square to_square c [] = 0"
| "parseMove_loop from_square to_square c (m # ms) =
     (if from_square = int (get_move_source m) \<and> to_square = int (get_move_target m)
      then
        (let promoted_piece = get_move_promoted m
         in if promoted_piece \<noteq> 0
            then
              (if (promoted_piece = WQ \<or> promoted_piece = BQ) \<and> c = CHR ''q'' then m
               else if (promoted_piece = WR \<or> promoted_piece = BR) \<and> c = CHR ''r'' then m
               else if (promoted_piece = WB \<or> promoted_piece = BB) \<and> c = CHR ''b'' then m
               else if (promoted_piece = WN \<or> promoted_piece = BN) \<and> c = CHR ''n'' then m
               else parseMove_loop from_square to_square c ms)
            else m)
      else parseMove_loop from_square to_square c ms)"

text \<open>\<open>parseMove\<close> returns the move and leaves the regenerated move list in the game.\<close>

definition parseMove :: "ChessBoard \<Rightarrow> Moves \<Rightarrow> string \<Rightarrow> move \<times> Moves" where
  "parseMove board mv move_str =
     (let mv = generate_moves board mv;
          from_square = (of_char (char_at move_str 0) - of_char CHR ''a'')
                        + (8 - (of_char (char_at move_str 1) - of_char CHR ''0'')) * 8;
          to_square = (of_char (char_at move_str 2) - of_char CHR ''a'')
                      + (8 - (of_char (char_at move_str 3) - of_char CHR ''0'')) * 8
      in (parseMove_loop from_square to_square (char_at move_str 4) (moves mv), mv))"

section \<open>Static evaluation (evaluation.cpp)\<close>

text \<open>
  The tables \<open>material_score\<close>, \<open>PAWN_SCORE\<close>, \<open>KNIGHT_SCORE\<close>, \<open>BISHOP_SCORE\<close>,
  \<open>ROOK_SCORE\<close>, \<open>KING_SCORE\<close> and \<open>MIRROR_SCORE\<close> are declared in
  \<open>evaluation.h\<close>; \<open>Evaluate\<close> takes them as a parameter.
\<close>

record eval_tables =
  material_score :: "int list"
  PAWN_SCORE :: "int list"
  KNIGHT_SCORE :: "int list"
  BISHOP_SCORE :: "int list"
  ROOK_SCORE :: "int list"
  KING_SCORE :: "int list"
  MIRROR_SCORE :: "nat list"

text \<open>The loop over the pieces within one bitboard.\<close>

function Evaluate_loop :: "eval_tables \<Rightarrow> nat \<Rightarrow> U64 \<Rightarrow> int \<Rightarrow> int" where
  "Evaluate_loop T bb_piece bitboard score =
     (if bitboard = 0 then score
      else
        let piece = bb_piece;
            square = bitScanForward bitboard;
            score = score + material_score T ! piece;
            score =
              (if piece = WP then score + PAWN_SCORE T ! square
               else if piece = WN then score + KNIGHT_SCORE T ! square
               else if piece = WB then score + BISHOP_SCORE T ! square
               else if piece = WR then score + ROOK_SCORE T ! square
               else if piece = WK then score + KING_SCORE T ! square
               else if piece = BP then score - PAWN_SCORE T ! (MIRROR_SCORE T ! square)
               else if piece = BN then score - KNIGHT_SCORE T ! (MIRROR_SCORE T ! square)
               else if piece = BB then score - BISHOP_SCORE T ! (MIRROR_SCORE T ! square)
               else if piece = BR then score - ROOK_SCORE T ! (MIRROR_SCORE T ! square)
               else if piece = BK then score - KING_SCORE T ! (MIRROR_SCORE T ! square)
               else score)
        in Evaluate_loop T bb_piece (pop_bit bitboard square) score)"
  by pat_completeness auto
termination
  by (relation "measure (\<lambda>(T, bb_piece, bitboard, score). unat bitboard)")
    (auto simp: pop_bit_bitScanForward_less)

definition Evaluate :: "eval_tables \<Rightarrow> ChessBoard \<Rightarrow> int" where
  "Evaluate T board =
     (let score = foldl (\<lambda>score bb_piece. Evaluate_loop T bb_piece (bitboards board ! bb_piece) score)
                    0 [WP..<BK + 1]
      in if color board = 0 then score else - score)"

section \<open>The iterative-deepening driver (evaluation.cpp)\<close>

text \<open>
  \<open>searchPosition\<close> calls \<open>NegaMax\<close> and the timer; both act on state outside the
  driver (the principal variation, killer and history tables, the node counter, the
  clock).  The driver is modelled over that state as a parameter: \<open>negamax\<close> maps it
  and the window and depth of a call to the score and the state after the call, and
  \<open>timeout\<close> reads it.  The driver's trace records each call of \<open>NegaMax\<close> and each
  \<open>info\<close> line printed.
\<close>

datatype search_event = NegaMax_call int int nat | Info_line int nat

function searchPosition_loop ::
  "('s \<Rightarrow> int \<Rightarrow> int \<Rightarrow> nat \<Rightarrow> int \<times> 's) \<Rightarrow> ('s \<Rightarrow> bool) \<Rightarrow> nat \<Rightarrow> nat \<Rightarrow> int \<Rightarrow> int \<Rightarrow> 's \<Rightarrow>
   search_event list \<Rightarrow> search_event list \<times> 's" where
  "searchPosition_loop negamax timeout depth curr_depth alpha beta st tr =
     (if curr_depth \<le> depth
      then
        (if timeout st then (tr, st)
         else
           (let (score, st) = negamax st alpha beta curr_depth;
                tr = tr @ [NegaMax_call alpha beta curr_depth]
            in if score \<le> alpha \<or> score \<ge> beta
               then searchPosition_loop negamax timeout depth (curr_depth + 1) (- 50000) 50000 st tr
               else searchPosition_loop negamax timeout depth (curr_depth + 1)
                      (score - 50) (score + 50) st (tr @ [Info_line score curr_depth])))
      else (tr, st))"
  by pat_completeness auto
termination
  by (relation "measure (\<lambda>(negamax, timeout, depth, curr_depth, alpha, beta, st, tr).
                           depth + 1 - curr_depth)") auto

definition searchPosition ::
  "('s \<Rightarrow> int \<Rightarrow> int \<Rightarrow> nat \<Rightarrow> int \<times> 's) \<Rightarrow> ('s \<Rightarrow> bool) \<Rightarrow> nat \<Rightarrow> 's \<Rightarrow> search_event list \<times> 's" where
  "searchPosition negamax timeout depth st =
     searchPosition_loop negamax timeout depth 1 (- 50000) 50000 st []"

text \<open>The depths of the \<open>NegaMax\<close> calls of a trace, in the order of the calls.\<close>

fun call_depths :: "search_event list \<Rightarrow> nat list" where
  "call_depths [] = []"
| "call_depths (NegaMax_call a b d # tr) = d # call_depths tr"
| "call_depths (Info_line s d # tr) = call_depths tr"

section \<open>Sample inputs\<close>

text \<open>
  Tables for running \<open>Evaluate\<close>: material values with the black ones negative, one
  piece-square table for all pieces, and the vertical mirror \<open>square XOR 56\<close>.
\<close>

definition sample_tables :: eval_tables where
  "sample_tables =
     \<lparr>material_score = [100, 300, 350, 500, 1000, 10000, - 100, - 300, - 350, - 500, - 1000, - 10000],
      PAWN_SCORE = map (\<lambda>s. int (7 - s div 8)) [0..<64],
      KNIGHT_SCORE = map (\<lambda>s. int (7 - s div 8)) [0..<64],
      BISHOP_SCORE = map (\<lambda>s. int (7 - s div 8)) [0..<64],
      ROOK_SCORE = map (\<lambda>s. int (7 - s div 8)) [0..<64],
      KING_SCORE = map (\<lambda>s. int (7 - s div 8)) [0..<64],
      MIRROR_SCORE = map (\<lambda>s. s XOR 56) [0..<64]\<rparr>"

text \<open>The position \<open>4k3/8/8/8/8/8/4P3/4K3 w - -\<close>.\<close>

definition pawn_ending :: ChessBoard where
  "pawn_ending =
     \<lparr>bitboards = [4503599627370496, 0, 0, 0, 0, 1152921504606846976, 0, 0, 0, 0, 0, 16],
      occupancy = [1157425104234217472, 16, 1157425104234217488],
      bitboards_copy = replicate 12 0, occupancy_copy = replicate 3 0,
      color = 0, color_copy = 2, enpassant = 64, enpassant_copy = 64,
      castling = 0, castling_copy = 0, num_moves = 0\<rparr>"

text \<open>
  The position \<open>4k3/8/8/8/8/8/4r3/4K3 w - -\<close>, white's king in check from the rook
  on e2, and the same position after the king has stepped to d1.
\<close>

definition rook_check :: ChessBoard where
  "rook_check =
     \<lparr>bitboards = [0, 0, 0, 0, 0, 1152921504606846976, 0, 0, 0, 4503599627370496, 0, 16],
      occupancy = [1152921504606846976, 4503599627370512, 1157425104234217488],
      bitboards_copy = replicate 12 0, occupancy_copy = replicate 3 0,
      color = 0, color_copy = 2, enpassant = 64, enpassant_copy = 64,
      castling = 0, castling_copy = 0, num_moves = 0\<rparr>"

definition rook_check_Kd1 :: ChessBoard where
  "rook_check_Kd1 =
     \<lparr>bitboards = [0, 0, 0, 0, 0, 576460752303423488, 0, 0, 0, 4503599627370496, 0, 16],
      occupancy = [576460752303423488, 4503599627370512, 580964351930794000],
      bitboards_copy = [0, 0, 0, 0, 0, 1152921504606846976, 0, 0, 0, 4503599627370496, 0, 16],
      occupancy_copy = [1152921504606846976, 4503599627370512, 1157425104234217488],
      color = 1, color_copy = 0, enpassant = 64, enpassant_copy = 64,
      castling = 0, castling_copy = 0, num_moves = 1\<rparr>"

text \<open>A move list with all 265 slots zero.\<close>

definition no_moves :: Moves where
  "no_moves = \<lparr>moves = replicate 265 0, moves_count = 0\<rparr>"

text \<open>
  The position \<open>4k3/8/8/8/8/8/4P3/N3K3 w - -\<close>, which is \<open>pawn_ending\<close> with a
  white knight on a1.
\<close>

definition knight_ending :: ChessBoard where
  "knight_ending =
     \<lparr>bitboards = [4503599627370496, 72057594037927936, 0, 0, 0, 1152921504606846976,
                   0, 0, 0, 0, 0, 16],
      occupancy = [1229482698272145408, 16, 1229482698272145424],
      bitboards_copy = replicate 12 0, occupancy_copy = replicate 3 0,
      color = 0, color_copy = 2, enpassant = 64, enpassant_copy = 64,
      castling = 0, castling_copy = 0, num_moves = 0\<rparr>"

text \<open>
  The position \<open>4k3/8/8/8/8/8/8/4K2R w K -\<close>, in which white may castle king-side,
  and the board after that castling move.
\<close>

definition kr_position :: ChessBoard where
  "kr_position =
     \<lparr>bitboards = [0, 0, 0, 9223372036854775808, 0, 1152921504606846976, 0, 0, 0, 0, 0, 16],
      occupancy = [10376293541461622784, 16, 10376293541461622800],
      bitboards_copy = replicate 12 0, occupancy_copy = replicate 3 0,
      color = 0, color_copy = 2, enpassant = 64, enpassant_copy = 64,
      castling = 1, castling_copy = 0, num_moves = 0\<rparr>"

definition kr_castled :: ChessBoard where
  "kr_castled =
     \<lparr>bitboards = [0, 0, 0, 2305843009213693952, 0, 4611686018427387904, 0, 0, 0, 0, 0, 16],
      occupancy = [6917529027641081856, 16, 6917529027641081872],
      bitboards_copy = [0, 0, 0, 9223372036854775808, 0, 1152921504606846976, 0, 0, 0, 0, 0, 16],
      occupancy_copy = [10376293541461622784, 16, 10376293541461622800],
      color = 1, color_copy = 0, enpassant = 64, enpassant_copy = 64,
      castling = 0, castling_copy = 1, num_moves = 1\<rparr>"

section \<open>Properties of the move list\<close>

lemma add_move_count_le: "moves_count mv \<le> 256 \<Longrightarrow> moves_count (add_move mv m) \<le> 256"
  by (simp add: add_move_def)

lemma add_move_drop: "drop 256 (moves (add_move mv m)) = drop 256 (moves mv)"
  by (simp add: add_move_def drop_update_cancel)

lemma add_move_length: "length (moves (add_move mv m)) = length (moves mv)"
  by (simp add: add_move_def)

lemma foldl_add_move_inv:
  "moves_count mv \<le> 256 \<Longrightarrow>
   moves_count (foldl add_move mv ms) \<le> 256 \<and>
   drop 256 (moves (foldl add_move mv ms)) = drop 256 (moves mv) \<and>
   length (moves (foldl add_move mv ms)) = length (moves mv)"
proof (induction ms arbitrary: mv)
  case Nil
  then show ?case by simp
next
  case (Cons m ms)
  from Cons.prems have "moves_count (add_move mv m) \<le> 256"
    by (rule add_move_count_le)
  from Cons.IH [OF this] show ?case
    by (simp add: add_move_drop add_move_length)
qed

text \<open>
  C10.  Whatever moves are added after the count has been reset, the count stays at most
  256 and the slots from index 256 on (of the 265) are never written; below 256 entries
  \<open>add_move\<close> stores the move at index \<open>moves_count\<close> and increments the count; at 256
  entries it leaves the array and the count as they are, prints its diagnostic and
  returns normally.
\<close>

theorem add_move_capacity:
  "moves_count (add_moves mv ms) \<le> 256 \<and>
   drop 256 (moves (add_moves mv ms)) = drop 256 (moves mv) \<and>
   length (moves (add_moves mv ms)) = length (moves mv) \<and>
   (moves_count mv < 256 \<longrightarrow>
      add_move mv m = mv\<lparr>moves := (moves mv)[moves_count mv := m],
                            moves_count := moves_count mv + 1\<rparr> \<and>
      add_move_output mv m = []) \<and>
   (moves_count mv = 256 \<longrightarrow>
      add_move mv m = mv \<and>
      add_move_output mv m = ''Array is full. Cannot add more moves.'' @ [CHR 0x0A])"
proof -
  have "moves_count (mv\<lparr>moves_count := 0\<rparr>) \<le> 256" by simp
  from foldl_add_move_inv [OF this, of ms] show ?thesis
    by (simp add: add_moves_def add_move_def add_move_output_def)
qed

theorem add_move_capacity_witness:
  "moves_count (add_moves \<lparr>moves = replicate 265 0, moves_count = 256\<rparr> [5, 7]) \<le> 256 \<and>
   add_move \<lparr>moves = replicate 265 0, moves_count = 256\<rparr> 9
     = \<lparr>moves = replicate 265 0, moves_count = 256\<rparr> \<and>
   add_move \<lparr>moves = [0, 0, 0], moves_count = 1\<rparr> 9 = \<lparr>moves = [0, 9, 0], moves_count = 2\<rparr>"
  using add_move_capacity [of "\<lparr>moves = replicate 265 0, moves_count = 256\<rparr>" "[5, 7]" 9]
    add_move_capacity [of "\<lparr>moves = [0, 0, 0], moves_count = 1\<rparr>" "[]" 9]
  by simp

section \<open>The driver never searches a depth twice\<close>

lemma call_depths_append: "call_depths (xs @ ys) = call_depths xs @ call_depths ys"
  by (induction xs rule: call_depths.induct) simp_all

lemma searchPosition_loop_depths:
  "\<exists>n. call_depths (fst (searchPosition_loop negamax timeout depth curr_depth alpha beta st tr))
        = call_depths tr @ [curr_depth..<n]"
proof (induction negamax timeout depth curr_depth alpha beta st tr rule: searchPosition_loop.induct)
  case (1 negamax timeout depth curr_depth alpha beta st tr)
  show ?case
  proof (cases "curr_depth \<le> depth \<and> \<not> timeout st")
    case False
    then have "call_depths (fst (searchPosition_loop negamax timeout depth curr_depth alpha beta st tr))
        = call_depths tr @ [curr_depth..<curr_depth]" by auto
    then show ?thesis by blast
  next
    case True
    obtain score st' where nm: "negamax st alpha beta curr_depth = (score, st')"
      by (cases "negamax st alpha beta curr_depth")
    let ?tr = "tr @ [NegaMax_call alpha beta curr_depth]"
    show ?thesis
    proof (cases "score \<le> alpha \<or> score \<ge> beta")
      case fail: True
      from "1.IH"(1) [of "(score, st')" score st' ?tr] True nm fail
      obtain n where n:
        "call_depths (fst (searchPosition_loop negamax timeout depth (curr_depth + 1)
                             (- 50000) 50000 st' ?tr))
         = call_depths ?tr @ [curr_depth + 1..<n]" by auto
      have "call_depths ?tr @ [curr_depth + 1..<n]
            = call_depths tr @ [curr_depth..<max n (curr_depth + 1)]"
        by (cases "curr_depth < n") (simp_all add: call_depths_append upt_conv_Cons max_def)
      with n True nm fail show ?thesis
        by (subst searchPosition_loop.simps) (auto simp del: searchPosition_loop.simps)
    next
      case ok: False
      let ?tr2 = "?tr @ [Info_line score curr_depth]"
      from "1.IH"(2) [of "(score, st')" score st' ?tr] True nm ok
      obtain n where n:
        "call_depths (fst (searchPosition_loop negamax timeout depth (curr_depth + 1)
                             (score - 50) (score + 50) st' ?tr2))
         = call_depths ?tr2 @ [curr_depth + 1..<n]" by auto
      have "call_depths ?tr2 @ [curr_depth + 1..<n]
            = call_depths tr @ [curr_depth..<max n (curr_depth + 1)]"
        by (cases "curr_depth < n") (simp_all add: call_depths_append upt_conv_Cons max_def)
      with n True nm ok show ?thesis
        by (subst searchPosition_loop.simps) (auto simp del: searchPosition_loop.simps)
    qed
  qed
qed

text \<open>
  Whatever \<open>NegaMax\<close> and the timer do, the calls of one \<open>searchPosition\<close> run at the
  depths 1, 2, 3, ... in turn: the \<open>continue\<close> of the window failure goes through the
  loop's increment, so no depth is searched a second time.
\<close>

lemma searchPosition_depths_once:
  "\<exists>n. call_depths (fst (searchPosition negamax timeout depth st)) = [1..<n]"
  using searchPosition_loop_depths [of negamax timeout depth 1 "- 50000" 50000 st "[]"]
  by (simp add: searchPosition_def)

text \<open>
  C6.  A search to depth 3 in which \<open>NegaMax\<close> scores 0 at depth 1 and 100 at the
  deeper depths: the call at depth 2 runs with the window \<open>[-50, 50]\<close> and fails high;
  the window is widened to \<open>[-50000, 50000]\<close> and no \<open>info\<close> line is printed for it,
  but the next call is at depth 3, and depth 2 is not searched again.  With the limit at
  depth 2 the search ends on the failed attempt.
\<close>

theorem searchPosition_window_failure:
  "fst (searchPosition (\<lambda>st alpha beta d. (if d = 1 then 0 else 100, st)) (\<lambda>st. False) 3 ())
     = [NegaMax_call (- 50000) 50000 1, Info_line 0 1, NegaMax_call (- 50) 50 2,
        NegaMax_call (- 50000) 50000 3, Info_line 100 3] \<and>
   fst (searchPosition (\<lambda>st alpha beta d. (if d = 1 then 0 else 100, st)) (\<lambda>st. False) 2 ())
     = [NegaMax_call (- 50000) 50000 1, Info_line 0 1, NegaMax_call (- 50) 50 2]"
  by (simp add: searchPosition_def)

section \<open>The sign convention of the evaluation\<close>

text \<open>
  C9.  If the board \<open>B'\<close> is the board \<open>B\<close> with the other side to move, white and
  black being 0 and 1, then \<open>Evaluate\<close> of \<open>B'\<close> is minus \<open>Evaluate\<close> of \<open>B\<close>, for
  any tables and any number of kings.
\<close>

theorem Evaluate_flip:
  assumes "B' = B\<lparr>color := c\<rparr>" and "{color B, c} = {0, 1}"
  shows "Evaluate T B' = - Evaluate T B"
proof -
  from assms(2) have "(color B = 0 \<and> c = 1) \<or> (color B = 1 \<and> c = 0)"
    by (auto simp: doubleton_eq_iff)
  with assms(1) show ?thesis
    by (auto simp: Evaluate_def Let_def)
qed

theorem Evaluate_flip_witness:
  "Evaluate sample_tables (pawn_ending\<lparr>color := 1\<rparr>) = - Evaluate sample_tables pawn_ending \<and>
   {color pawn_ending, 1} = {0, 1}"
proof -
  have c: "{color pawn_ending, 1} = {0, 1}"
    by (simp add: pawn_ending_def)
  from Evaluate_flip [OF refl c, of sample_tables] c show ?thesis by simp
qed

section \<open>Sample runs\<close>

text \<open>The generator and \<open>MakeMove\<close> on the sample positions, evaluated once.\<close>

lemma generate_rook_check:
  "generate_moves rook_check no_moves
     = \<lparr>moves = [23804, 1072444, 23932, 24316, 24444] @ replicate 260 0, moves_count = 5\<rparr>"
  by code_simp

lemma generated_rook_check:
  "generated rook_check no_moves = [23804, 1072444, 23932, 24316, 24444]"
  by (simp add: generated_def generate_rook_check)

lemma MakeMove_rook_check_Kd2: "MakeMove rook_check 23804 = Some (False, copyBoard rook_check)"
  by code_simp

lemma MakeMove_rook_check_Kd1: "MakeMove rook_check 24316 = Some (True, rook_check_Kd1)"
  by code_simp

lemma generate_knight_ending:
  "generate_moves knight_ending no_moves
     = \<lparr>moves = [2868, 2099508, 23804, 23932, 24316, 24444, 6776, 7352] @ replicate 257 0,
        moves_count = 8\<rparr>"
  by code_simp

lemma generate_pawn_ending_stale:
  "generate_moves pawn_ending
       \<lparr>moves = [2868, 2099508, 23804, 23932, 24316, 24444, 6776, 7352] @ replicate 257 0,
        moves_count = 8\<rparr>
     = \<lparr>moves = [2868, 2099508, 23804, 23932, 24316, 24444, 6776, 7352] @ replicate 257 0,
        moves_count = 6\<rparr>"
  by code_simp

lemma generate_kr_position:
  "generate_moves kr_position no_moves
     = \<lparr>moves = [23804, 23868, 23932, 24316, 24444, 8413116, 12799, 13311, 13823, 14335,
                 14847, 15359, 15871, 16255, 16319] @ replicate 250 0,
        moves_count = 15\<rparr>"
  by code_simp

lemma generated_kr_position:
  "generated kr_position no_moves
     = [23804, 23868, 23932, 24316, 24444, 8413116, 12799, 13311, 13823, 14335,
        14847, 15359, 15871, 16255, 16319]"
  by (simp add: generated_def generate_kr_position)

lemma MakeMove_kr_castle: "MakeMove kr_position 8413116 = Some (True, kr_castled)"
  by code_simp

section \<open>Snapshot and restore\<close>

lemma MakeMove_unfold:
  "MakeMove board m =
     (if 12 \<le> get_move_piece m \<or> 12 \<le> get_move_promoted m then None
      else if get_move_enpassant m \<noteq> 0 \<and>
              (if move_side m = white then 64 \<le> get_move_target m + 8 else get_move_target m < 8)
      then None
      else case isThereCheck (moved_board board m) (move_side m) of
             None \<Rightarrow> None
           | Some True \<Rightarrow> Some (False, revertBoard (moved_board board m))
           | Some False \<Rightarrow> Some (True, move_accept (moved_board board m) (get_move_double m)
                                        (move_side m) (get_move_source m)))"
  unfolding MakeMove_def moved_board_def move_side_def Let_def by (rule refl)

lemma MakeMove_False:
  "MakeMove board m = Some (False, board') \<Longrightarrow> board' = revertBoard (moved_board board m)"
  by (simp add: MakeMove_unfold split: if_splits option.splits bool.splits)

lemma MakeMove_True:
  "MakeMove board m = Some (True, board') \<Longrightarrow>
   board' = move_accept (moved_board board m) (get_move_double m) (move_side m) (get_move_source m)"
  by (simp add: MakeMove_unfold split: if_splits option.splits bool.splits)

lemma moved_board_copyBoard: "moved_board (copyBoard board) m = moved_board board m"
proof -
  have "copyBoard (copyBoard board) = copyBoard board"
    by (simp add: copyBoard_def)
  then show ?thesis
    unfolding moved_board_def by (simp only:)
qed

lemma MakeMove_copyBoard: "MakeMove (copyBoard board) m = MakeMove board m"
  by (simp only: MakeMove_unfold moved_board_copyBoard)

lemma snapshot_steps [simp]:
  "snapshot (pop_bitboard b p s) = snapshot b"
  "snapshot (set_bitboard b p s) = snapshot b"
  "snapshot (pop_occupancy b p s) = snapshot b"
  "snapshot (set_occupancy b p s) = snapshot b"
  "snapshot (clear_occupancy b p) = snapshot b"
  "snapshot (or_occupancy b p q) = snapshot b"
  "snapshot (join_occupancy b) = snapshot b"
  "snapshot (and_castling b s) = snapshot b"
  "snapshot (b\<lparr>enpassant := e\<rparr>) = snapshot b"
  by (simp_all add: snapshot_def pop_bitboard_def set_bitboard_def pop_occupancy_def
        set_occupancy_def clear_occupancy_def or_occupancy_def join_occupancy_def and_castling_def)

lemma snapshot_capture_loop [simp]: "snapshot (capture_loop b s ps) = snapshot b"
  by (induction ps) simp_all

lemma snapshot_foldl_or [simp]:
  "snapshot (foldl (\<lambda>board piece. or_occupancy board side piece) b ps) = snapshot b"
  by (induction ps arbitrary: b) simp_all

lemma snapshot_blocks [simp]:
  "snapshot (fill_occupancy b) = snapshot b"
  "snapshot (move_capture b c side t) = snapshot b"
  "snapshot (move_promotion b pr p t) = snapshot b"
  "snapshot (move_enpassant b e side t) = snapshot b"
  "snapshot (move_castling b cf t) = snapshot b"
  "snapshot (update_occupancy b) = snapshot b"
  by (simp_all add: fill_occupancy_def move_capture_def move_promotion_def move_enpassant_def
        move_castling_def update_occupancy_def Let_def)

lemma snapshot_moved_board:
  "snapshot (moved_board board m) =
     (bitboards board, occupancy board, color board, enpassant board, castling board,
      num_moves board)"
proof -
  have "snapshot (moved_board board m) = snapshot (copyBoard board)"
    by (simp add: moved_board_def Let_def)
  then show ?thesis by (simp add: snapshot_def copyBoard_def)
qed

lemma snapshot_move_accept:
  "snapshot (move_accept X d s f) =
     (bitboards_copy X, occupancy_copy X, color_copy X, enpassant_copy X, castling_copy X,
      num_moves X + 1)"
  by (simp add: snapshot_def move_accept_def Let_def)

lemma revertBoard_snapshot:
  "snapshot X = (bbs, occ, c, e, ca, n) \<Longrightarrow>
   bitboards (revertBoard X) = bbs \<and> occupancy (revertBoard X) = occ \<and>
   color (revertBoard X) = c \<and> enpassant (revertBoard X) = e \<and>
   castling (revertBoard X) = ca \<and> num_moves (revertBoard X) = n"
  by (simp add: snapshot_def revertBoard_def)

text \<open>
  C1.  If \<open>MakeMove\<close> does not accept a move that \<open>generate_moves\<close> produced for the
  board, the twelve piece bitboards, the three occupancies, the side to move, the
  en-passant square, the castling rights and the move counter are what they were before
  the call.
\<close>

theorem MakeMove_rejected_restores:
  assumes "m \<in> set (generated board mv)"
    and "MakeMove board m = Some (False, board')"
  shows "bitboards board' = bitboards board \<and> occupancy board' = occupancy board \<and>
         color board' = color board \<and> enpassant board' = enpassant board \<and>
         castling board' = castling board \<and> num_moves board' = num_moves board"
proof -
  from assms(2) have "board' = revertBoard (moved_board board m)"
    by (rule MakeMove_False)
  with revertBoard_snapshot [OF snapshot_moved_board, of board m] show ?thesis by simp
qed

theorem MakeMove_rejected_restores_witness:
  "23804 \<in> set (generated rook_check no_moves) \<and>
   MakeMove rook_check 23804 = Some (False, copyBoard rook_check) \<and>
   bitboards (copyBoard rook_check) = bitboards rook_check \<and>
   occupancy (copyBoard rook_check) = occupancy rook_check \<and>
   color (copyBoard rook_check) = color rook_check \<and>
   enpassant (copyBoard rook_check) = enpassant rook_check \<and>
   castling (copyBoard rook_check) = castling rook_check \<and>
   num_moves (copyBoard rook_check) = num_moves rook_check"
proof -
  have g: "23804 \<in> set (generated rook_check no_moves)"
    by (simp add: generated_rook_check)
  note r = MakeMove_rook_check_Kd2
  from MakeMove_rejected_restores [OF g r] g r show ?thesis by simp
qed

text \<open>
  C2, as the code has it.  After \<open>copyBoard\<close>, an accepted \<open>MakeMove\<close> of a generated
  move and \<open>revertBoard\<close>, the piece bitboards, the occupancies, the side to move, the
  en-passant square and the castling rights are those of the board before the snapshot.
  The move counter is not part of the snapshot: it is one more than before.
\<close>

theorem snapshot_make_restore:
  assumes "m \<in> set (generated board mv)"
    and "MakeMove (copyBoard board) m = Some (True, board')"
  shows "bitboards (revertBoard board') = bitboards board \<and>
         occupancy (revertBoard board') = occupancy board \<and>
         color (revertBoard board') = color board \<and>
         enpassant (revertBoard board') = enpassant board \<and>
         castling (revertBoard board') = castling board \<and>
         num_moves (revertBoard board') = num_moves board + 1"
proof -
  let ?X = "moved_board (copyBoard board) m"
  from assms(2)
  have b': "board' = move_accept ?X (get_move_double m) (move_side m) (get_move_source m)"
    by (rule MakeMove_True)
  have "snapshot ?X = (bitboards board, occupancy board, color board, enpassant board,
                       castling board, num_moves board)"
    using snapshot_moved_board [of "copyBoard board" m] by (simp add: copyBoard_def)
  then have "snapshot board' = (bitboards board, occupancy board, color board, enpassant board,
                                castling board, num_moves board + 1)"
    unfolding b' snapshot_move_accept by (simp add: snapshot_def)
  from revertBoard_snapshot [OF this] show ?thesis .
qed

theorem snapshot_make_restore_witness:
  "24316 \<in> set (generated rook_check no_moves) \<and>
   MakeMove (copyBoard rook_check) 24316 = Some (True, rook_check_Kd1) \<and>
   bitboards (revertBoard rook_check_Kd1) = bitboards rook_check \<and>
   occupancy (revertBoard rook_check_Kd1) = occupancy rook_check \<and>
   color (revertBoard rook_check_Kd1) = color rook_check \<and>
   enpassant (revertBoard rook_check_Kd1) = enpassant rook_check \<and>
   castling (revertBoard rook_check_Kd1) = castling rook_check \<and>
   num_moves (revertBoard rook_check_Kd1) = num_moves rook_check + 1"
proof -
  have g: "24316 \<in> set (generated rook_check no_moves)"
    by (simp add: generated_rook_check)
  have a: "MakeMove (copyBoard rook_check) 24316 = Some (True, rook_check_Kd1)"
    by (simp add: MakeMove_copyBoard MakeMove_rook_check_Kd1)
  from snapshot_make_restore [OF g a] g a show ?thesis by simp
qed

text \<open>
  The claim as the specification states it fails on the move counter: in the position
  \<open>rook_check\<close> the legal king move e1-d1 is made after a snapshot and undone by the
  restore, and the counter is 1 where it was 0.
\<close>

theorem snapshot_make_restore_counterexample:
  "24316 \<in> set (generated rook_check no_moves) \<and>
   MakeMove (copyBoard rook_check) 24316 = Some (True, rook_check_Kd1) \<and>
   num_moves (revertBoard rook_check_Kd1) = 1 \<and> num_moves rook_check = 0"
proof -
  have "24316 \<in> set (generated rook_check no_moves)"
    by (simp add: generated_rook_check)
  moreover have "MakeMove (copyBoard rook_check) 24316 = Some (True, rook_check_Kd1)"
    by (simp add: MakeMove_copyBoard MakeMove_rook_check_Kd1)
  moreover have "num_moves (revertBoard rook_check_Kd1) = 1 \<and> num_moves rook_check = 0"
    by (simp add: revertBoard_def rook_check_Kd1_def rook_check_def)
  ultimately show ?thesis by simp
qed

section \<open>The occupancy invariant\<close>

lemma white_pieces: "[0..<6] = [0, 1, 2, 3, 4, 5 :: nat]"
  by (simp add: upt_rec)

lemma black_pieces: "[6..<12] = [6, 7, 8, 9, 10, 11 :: nat]"
  by (simp add: upt_rec)

lemma fill_occupancy_consistent:
  assumes "length (occupancy b) = 3" and "occupancy b ! white = 0" and "occupancy b ! black = 0"
  shows "occupancy_consistent (fill_occupancy b)"
  using assms
  by (simp add: fill_occupancy_def white_pieces black_pieces or_occupancy_def join_occupancy_def
        occupancy_consistent_def ac_simps)

lemma occ_length_steps [simp]:
  "length (occupancy (pop_bitboard b p s)) = length (occupancy b)"
  "length (occupancy (set_bitboard b p s)) = length (occupancy b)"
  "length (occupancy (pop_occupancy b p s)) = length (occupancy b)"
  "length (occupancy (set_occupancy b p s)) = length (occupancy b)"
  "length (occupancy (clear_occupancy b p)) = length (occupancy b)"
  "length (occupancy (or_occupancy b p q)) = length (occupancy b)"
  "length (occupancy (join_occupancy b)) = length (occupancy b)"
  "length (occupancy (and_castling b s)) = length (occupancy b)"
  by (simp_all add: pop_bitboard_def set_bitboard_def pop_occupancy_def
        set_occupancy_def clear_occupancy_def or_occupancy_def join_occupancy_def and_castling_def)

lemma occ_length_capture_loop [simp]:
  "length (occupancy (capture_loop b s ps)) = length (occupancy b)"
  by (induction ps) simp_all

lemma occ_length_foldl_or [simp]:
  "length (occupancy (foldl (\<lambda>board piece. or_occupancy board side piece) b ps))
     = length (occupancy b)"
  by (induction ps arbitrary: b) simp_all

lemma occ_length_blocks [simp]:
  "length (occupancy (fill_occupancy b)) = length (occupancy b)"
  "length (occupancy (move_capture b c side t)) = length (occupancy b)"
  "length (occupancy (move_promotion b pr p t)) = length (occupancy b)"
  "length (occupancy (move_enpassant b e side t)) = length (occupancy b)"
  "length (occupancy (move_castling b cf t)) = length (occupancy b)"
  by (simp_all add: fill_occupancy_def move_capture_def move_promotion_def move_enpassant_def
        move_castling_def Let_def)

lemma update_occupancy_consistent:
  "length (occupancy b) = 3 \<Longrightarrow> occupancy_consistent (update_occupancy b)"
  unfolding update_occupancy_def Let_def
  by (rule fill_occupancy_consistent) (simp_all add: clear_occupancy_def)

lemma moved_board_consistent:
  "length (occupancy board) = 3 \<Longrightarrow> occupancy_consistent (moved_board board m)"
  unfolding moved_board_def Let_def
  by (rule update_occupancy_consistent) (simp add: copyBoard_def)

lemma moved_board_length: "length (occupancy (moved_board board m)) = length (occupancy board)"
  by (simp add: moved_board_def update_occupancy_def Let_def copyBoard_def)

lemma parseFEN_consistent:
  assumes "length (occupancy board0) = 3" and "parseFEN board0 fen = Some board"
  shows "occupancy_consistent board \<and> length (occupancy board) = 3"
  using assms unfolding parseFEN_def Let_def
  by (auto split: option.splits if_splits prod.splits intro!: fill_occupancy_consistent
        simp: resetBoard_def)

lemma reachable_consistent:
  "reachable board \<Longrightarrow> occupancy_consistent board \<and> length (occupancy board) = 3"
proof (induction rule: reachable.induct)
  case (parsed board0 fen board)
  then show ?case by (rule parseFEN_consistent)
next
  case (moved board m accepted board')
  show ?case
  proof (cases accepted)
    case True
    with moved.hyps(2)
    have "board' = move_accept (moved_board board m) (get_move_double m) (move_side m)
                     (get_move_source m)"
      by (simp add: MakeMove_True)
    moreover from moved.IH
    have "occupancy_consistent (moved_board board m)"
      and "length (occupancy (moved_board board m)) = 3"
      by (simp_all add: moved_board_consistent moved_board_length)
    ultimately show ?thesis
      by (simp add: move_accept_def Let_def occupancy_consistent_def)
  next
    case False
    with moved.hyps(2) have "board' = revertBoard (moved_board board m)"
      by (simp add: MakeMove_False)
    with revertBoard_snapshot [OF snapshot_moved_board, of board m] moved.IH
    show ?thesis by (simp add: occupancy_consistent_def)
  qed
qed

text \<open>
  C3.  On every board that \<open>parseFEN\<close> returns and on every board that a call of
  \<open>MakeMove\<close> leaves afterwards, accepted or not, the white occupancy is the union of
  the six white piece bitboards, the black occupancy the union of the six black ones,
  and the occupancy of both is the union of the two.
\<close>

theorem occupancy_invariant: "reachable board \<Longrightarrow> occupancy_consistent board"
  by (simp add: reachable_consistent)

theorem occupancy_invariant_witness:
  "reachable rook_check \<and> occupancy_consistent rook_check \<and>
   reachable rook_check_Kd1 \<and> occupancy_consistent rook_check_Kd1 \<and>
   reachable (copyBoard rook_check) \<and> occupancy_consistent (copyBoard rook_check)"
proof -
  have "parseFEN pawn_ending ''4k3/8/8/8/8/8/4r3/4K3 w - - 0 1'' = Some rook_check"
    by code_simp
  moreover have "length (occupancy pawn_ending) = 3"
    by (simp add: pawn_ending_def)
  ultimately have r: "reachable rook_check"
    by (rule reachable.parsed [rotated])
  from r MakeMove_rook_check_Kd1 have a: "reachable rook_check_Kd1"
    by (rule reachable.moved)
  from r MakeMove_rook_check_Kd2 have n: "reachable (copyBoard rook_check)"
    by (rule reachable.moved)
  from r a n occupancy_invariant [OF r] occupancy_invariant [OF a] occupancy_invariant [OF n]
  show ?thesis by simp
qed

section \<open>What the generator emits\<close>



lemma nat_bit_bound: "(f::nat) < 2 ^ k \<Longrightarrow> bit f n \<Longrightarrow> n < k"
proof (rule ccontr)
  assume f: "f < 2 ^ k" and b: "bit f n" and "\<not> n < k"
  then have "(2::nat) ^ k \<le> 2 ^ n" by (simp add: power_increasing)
  with f have "f < 2 ^ n" by (rule less_le_trans)
  then have "f div 2 ^ n = 0" by simp
  with b show False by (simp add: bit_iff_odd)
qed

lemma bit_flag: "x < 2 \<Longrightarrow> bit x k \<longleftrightarrow> k = 0 \<and> x = 1" for x k :: nat
proof -
  assume x: "x < 2"
  then consider "x = 0" | "x = 1" by linarith
  then show ?thesis
  proof cases
    case 1 then show ?thesis by simp
  next
    case 2 then show ?thesis by (simp add: bit_Suc_0_iff)
  qed
qed

lemma bit_encode_move:
  assumes "f < 64" "t < 64" "p < 16" "pr < 16" "c < 2" "d < 2" "e < 2" "ca < 2"
  shows "bit (encode_move f t p pr c d e ca) n \<longleftrightarrow>
     (n < 6 \<and> bit f n) \<or> (6 \<le> n \<and> n < 12 \<and> bit t (n - 6)) \<or>
     (12 \<le> n \<and> n < 16 \<and> bit p (n - 12)) \<or> (16 \<le> n \<and> n < 20 \<and> bit pr (n - 16)) \<or>
     (n = 20 \<and> c = 1) \<or> (n = 21 \<and> d = 1) \<or> (n = 22 \<and> e = 1) \<or> (n = 23 \<and> ca = 1)"
proof -
  have 1: "n < 32 \<and> bit f n \<longleftrightarrow> n < 6 \<and> bit f n"
    using nat_bit_bound [of f 6 n] assms(1) by auto
  have 2: "6 \<le> n \<and> n < 32 \<and> n - 6 < 32 \<and> bit t (n - 6) \<longleftrightarrow> 6 \<le> n \<and> n < 12 \<and> bit t (n - 6)"
    using nat_bit_bound [of t 6 "n - 6"] assms(2) by auto
  have 3: "12 \<le> n \<and> n < 32 \<and> n - 12 < 32 \<and> bit p (n - 12) \<longleftrightarrow> 12 \<le> n \<and> n < 16 \<and> bit p (n - 12)"
    using nat_bit_bound [of p 4 "n - 12"] assms(3) by auto
  have 4: "16 \<le> n \<and> n < 32 \<and> n - 16 < 32 \<and> bit pr (n - 16) \<longleftrightarrow> 16 \<le> n \<and> n < 20 \<and> bit pr (n - 16)"
    using nat_bit_bound [of pr 4 "n - 16"] assms(4) by auto
  have 5: "20 \<le> n \<and> n < 32 \<and> n - 20 < 32 \<and> bit c (n - 20) \<longleftrightarrow> n = 20 \<and> c = 1"
    using bit_flag [OF assms(5), of "n - 20"] by auto
  have 6: "21 \<le> n \<and> n < 32 \<and> n - 21 < 32 \<and> bit d (n - 21) \<longleftrightarrow> n = 21 \<and> d = 1"
    using bit_flag [OF assms(6), of "n - 21"] by auto
  have 7: "22 \<le> n \<and> n < 32 \<and> n - 22 < 32 \<and> bit e (n - 22) \<longleftrightarrow> n = 22 \<and> e = 1"
    using bit_flag [OF assms(7), of "n - 22"] by auto
  have 8: "23 \<le> n \<and> n < 32 \<and> n - 23 < 32 \<and> bit ca (n - 23) \<longleftrightarrow> n = 23 \<and> ca = 1"
    using bit_flag [OF assms(8), of "n - 23"] by auto
  have "bit (encode_move f t p pr c d e ca) n \<longleftrightarrow>
     (n < 32 \<and> bit f n) \<or> (6 \<le> n \<and> n < 32 \<and> n - 6 < 32 \<and> bit t (n - 6)) \<or>
     (12 \<le> n \<and> n < 32 \<and> n - 12 < 32 \<and> bit p (n - 12)) \<or> (16 \<le> n \<and> n < 32 \<and> n - 16 < 32 \<and> bit pr (n - 16)) \<or>
     (20 \<le> n \<and> n < 32 \<and> n - 20 < 32 \<and> bit c (n - 20)) \<or> (21 \<le> n \<and> n < 32 \<and> n - 21 < 32 \<and> bit d (n - 21)) \<or>
     (22 \<le> n \<and> n < 32 \<and> n - 22 < 32 \<and> bit e (n - 22)) \<or> (23 \<le> n \<and> n < 32 \<and> n - 23 < 32 \<and> bit ca (n - 23))"
    by (simp add: encode_move_def bit_simps)
  then show ?thesis
    by (simp only: 1 2 3 4 5 6 7 8)
qed


lemma castling_flag_clear:
  assumes "f < 64" "t < 64" "p < 16" "pr < 16" "c < 2" "d < 2" "e < 2"
  shows "get_move_castling (encode_move f t p pr c d e 0) = 0"
proof -
  have nb: "\<not> bit (encode_move f t p pr c d e 0) 23"
    using bit_encode_move [OF assms, of 0 23] by simp
  have e: "(0x800000 :: 32 word) = 2 ^ 23" by simp
  have "encode_move f t p pr c d e 0 AND 2 ^ 23 = 0"
  proof (rule bit_eqI)
    fix n
    show "bit (encode_move f t p pr c d e 0 AND 2 ^ 23) n \<longleftrightarrow> bit (0 :: 32 word) n"
      unfolding bit_and_iff bit_exp_iff using nb by auto
  qed
  then show ?thesis by (simp only: get_move_castling_def e)
qed


lemma add_move_all:
  assumes "all_generated P mv" and "P m"
  shows "all_generated P (add_move mv m)"
proof (cases "moves_count mv < 256")
  case False
  with assms(1) show ?thesis by (simp add: add_move_def)
next
  case True
  have "set (take (Suc (moves_count mv)) ((moves mv)[moves_count mv := m]))
          \<subseteq> insert m (set (take (moves_count mv) (moves mv)))"
  proof (cases "moves_count mv < length (moves mv)")
    case True
    then show ?thesis by (simp add: take_Suc_conv_app_nth)
  next
    case False
    then show ?thesis by (simp add: list_update_beyond) blast
  qed
  with assms True show ?thesis
    by (auto simp: add_move_def all_generated_def)
qed

lemma foldl_add_move_all:
  assumes "all_generated P mv" and "\<And>p. p \<in> set ps \<Longrightarrow> P (enc p)"
  shows "all_generated P (foldl (\<lambda>mv p. add_move mv (enc p)) mv ps)"
  using assms by (induction ps arbitrary: mv) (simp_all add: add_move_all)

lemma promotions_bound:
  "p \<in> set (if side = white then WHITE_PROMOTIONS else BLACK_PROMOTIONS) \<Longrightarrow> p < 12"
  by (auto simp: WHITE_PROMOTIONS_def BLACK_PROMOTIONS_def split: if_splits)

lemma pawn_attacks_loop_all:
  assumes N: "\<And>f t p pr c d e. f < 64 \<Longrightarrow> t < 64 \<Longrightarrow> p < 12 \<Longrightarrow> pr < 12 \<Longrightarrow> c < 2 \<Longrightarrow> d < 2 \<Longrightarrow> e < 2
                \<Longrightarrow> P (encode_move f t p pr c d e 0)"
    and "from_square < 64" and "piece < 12" and "\<And>p. p \<in> set promotions \<Longrightarrow> p < 12"
    and "all_generated P mv"
  shows "all_generated P (pawn_attacks_loop side from_square piece promotions attacks mv)"
  using assms(2-)
proof (induction side from_square piece promotions attacks mv rule: pawn_attacks_loop.induct)
  case (1 side from_square piece promotions attacks mv)
  show ?case
  proof (cases "attacks = 0")
    case True
    with 1 show ?thesis by simp
  next
    case False
    then have t: "bitScanForward attacks < 64" by (rule bitScanForward_bit)
    let ?mv = "(if (if side = white then a7 \<le> from_square \<and> from_square \<le> h7
               else a2 \<le> from_square \<and> from_square \<le> h2)
                  then foldl (\<lambda>mv p. add_move mv (encode_move from_square (bitScanForward attacks) piece p 1 0 0 0))
                         mv promotions
                  else add_move mv (encode_move from_square (bitScanForward attacks) piece 0 1 0 0 0))"
    have "all_generated P ?mv"
      using 1(2-) t by (auto intro!: foldl_add_move_all add_move_all N)
    from "1.IH" [OF False refl refl refl "1.prems"(1,2,3) this] False
    show ?thesis by (subst pawn_attacks_loop.simps) (simp add: Let_def)
  qed
qed

lemma pawn_moves_from_all:
  assumes N: "\<And>f t p pr c d e. f < 64 \<Longrightarrow> t < 64 \<Longrightarrow> p < 12 \<Longrightarrow> pr < 12 \<Longrightarrow> c < 2 \<Longrightarrow> d < 2 \<Longrightarrow> e < 2
                \<Longrightarrow> P (encode_move f t p pr c d e 0)"
    and f: "from_square < 64" and mv: "all_generated P mv"
  shows "all_generated P (pawn_moves_from board side occ from_square mv)"
proof -
  define piece where "piece = (if side = white then WP else BP)"
  define direction where "direction = (if side = white then - 8 else 8 :: int)"
  define promotions where "promotions = (if side = white then WHITE_PROMOTIONS else BLACK_PROMOTIONS)"
  define to_square where "to_square = int from_square + direction"
  define allowed where "allowed \<longleftrightarrow> (if side = white then \<not> to_square < 0 else \<not> to_square > 63)"
  define promo where "promo \<longleftrightarrow> (if side = white then a7 \<le> from_square \<and> from_square \<le> h7
                          else a2 \<le> from_square \<and> from_square \<le> h2)"
  define dbl where "dbl \<longleftrightarrow> (if side = white then a2 \<le> from_square \<and> from_square \<le> h2
                                else a7 \<le> from_square \<and> from_square \<le> h7)"
  define mv1 where "mv1 =
     (if allowed \<and> \<not> get_bit (occ ! both) (nat to_square)
      then
        (if promo
         then foldl (\<lambda>mv p. add_move mv (encode_move from_square (nat to_square) piece p 0 0 0 0))
                mv promotions
         else
           (let mv = add_move mv (encode_move from_square (nat to_square) piece 0 0 0 0 0)
            in if dbl \<and> \<not> get_bit (occ ! both) (nat (to_square + direction))
               then add_move mv
                      (encode_move from_square (nat (to_square + direction)) piece 0 0 1 0 0)
               else mv))
      else mv)"
  define mv2 where "mv2 = pawn_attacks_loop side from_square piece promotions
                            (pawn_attacks side from_square AND occ ! (side XOR 1)) mv1"
  define ea where "ea = pawn_attacks side from_square AND push_bit (unat (enpassant board)) 1"
  have eq: "pawn_moves_from board side occ from_square mv =
     (if enpassant board \<noteq> 64
      then (if ea \<noteq> 0
            then add_move mv2 (encode_move from_square (bitScanForward ea) piece 0 1 0 1 0)
            else mv2)
      else mv2)"
    unfolding pawn_moves_from_def Let_def mv2_def mv1_def ea_def piece_def direction_def
      promotions_def to_square_def allowed_def promo_def dbl_def
    by (rule refl)
  have piece: "piece < 12" by (simp add: piece_def)
  have pr: "\<And>p. p \<in> set promotions \<Longrightarrow> p < 12"
    unfolding promotions_def by (rule promotions_bound)
  have t1: "allowed \<Longrightarrow> nat to_square < 64"
    using f by (auto simp: allowed_def to_square_def direction_def split: if_splits)
  have t2: "dbl \<Longrightarrow> nat (to_square + direction) < 64"
    using f by (auto simp: dbl_def to_square_def direction_def split: if_splits)
  have 1: "all_generated P mv1"
  proof (cases "allowed \<and> \<not> get_bit (occ ! both) (nat to_square)")
    case False
    show ?thesis unfolding mv1_def using mv by (simp only: False if_False)
  next
    case True
    then have a: allowed by simp
    show ?thesis
    proof (cases promo)
      case True
      have "all_generated P (foldl (\<lambda>mv p. add_move mv (encode_move from_square (nat to_square) piece p 0 0 0 0))
                mv promotions)"
        using mv by (rule foldl_add_move_all) (simp add: N f t1 [OF a] piece pr)
      with True \<open>allowed \<and> \<not> get_bit (occ ! both) (nat to_square)\<close> show ?thesis
        by (simp add: mv1_def)
    next
      case False
      have s: "all_generated P (add_move mv (encode_move from_square (nat to_square) piece 0 0 0 0 0))"
        using mv by (rule add_move_all) (simp add: N f t1 [OF a] piece)
      have "dbl \<Longrightarrow> all_generated P (add_move (add_move mv (encode_move from_square (nat to_square) piece 0 0 0 0 0))
                      (encode_move from_square (nat (to_square + direction)) piece 0 0 1 0 0))"
        using s by (rule add_move_all) (simp add: N f t2 piece)
      with s False \<open>allowed \<and> \<not> get_bit (occ ! both) (nat to_square)\<close> show ?thesis
        by (simp add: mv1_def Let_def)
    qed
  qed
  have 2: "all_generated P mv2"
    unfolding mv2_def using N f piece pr 1 by (rule pawn_attacks_loop_all)
  have "ea \<noteq> 0 \<Longrightarrow> all_generated P (add_move mv2 (encode_move from_square (bitScanForward ea) piece 0 1 0 1 0))"
    using 2 by (rule add_move_all) (simp add: N f piece bitScanForward_bit)
  with 2 show ?thesis by (simp add: eq)
qed


lemma pawns_loop_all:
  assumes N: "\<And>f t p pr c d e. f < 64 \<Longrightarrow> t < 64 \<Longrightarrow> p < 12 \<Longrightarrow> pr < 12 \<Longrightarrow> c < 2 \<Longrightarrow> d < 2 \<Longrightarrow> e < 2
                \<Longrightarrow> P (encode_move f t p pr c d e 0)"
    and "all_generated P mv"
  shows "all_generated P (pawns_loop board side occ bitboard mv)"
  using assms(2)
proof (induction board side occ bitboard mv rule: pawns_loop.induct)
  case (1 board side occ bitboard mv)
  show ?case
  proof (cases "bitboard = 0")
    case True
    with 1 show ?thesis by simp
  next
    case False
    then have "bitScanForward bitboard < 64" by (rule bitScanForward_bit)
    with N have "all_generated P (pawn_moves_from board side occ (bitScanForward bitboard) mv)"
      using "1.prems" by (rule pawn_moves_from_all)
    from "1.IH" [OF False refl refl this] False
    show ?thesis by (subst pawns_loop.simps) (simp add: Let_def)
  qed
qed

lemma attacks_loop_all:
  assumes N: "\<And>f t p pr c d e. f < 64 \<Longrightarrow> t < 64 \<Longrightarrow> p < 12 \<Longrightarrow> pr < 12 \<Longrightarrow> c < 2 \<Longrightarrow> d < 2 \<Longrightarrow> e < 2
                \<Longrightarrow> P (encode_move f t p pr c d e 0)"
    and "from_square < 64" and "piece < 12" and "all_generated P mv"
  shows "all_generated P (attacks_loop from_square piece enemy attacks mv)"
  using assms(2-)
proof (induction from_square piece enemy attacks mv rule: attacks_loop.induct)
  case (1 from_square piece enemy attacks mv)
  show ?case
  proof (cases "attacks = 0")
    case True
    with 1 show ?thesis by simp
  next
    case False
    then have t: "bitScanForward attacks < 64" by (rule bitScanForward_bit)
    let ?mv = "(if \<not> get_bit enemy (bitScanForward attacks)
                  then add_move mv (encode_move from_square (bitScanForward attacks) piece 0 0 0 0 0)
                  else add_move mv (encode_move from_square (bitScanForward attacks) piece 0 1 0 0 0))"
    have "all_generated P ?mv"
      using "1.prems" t by (auto intro!: add_move_all N)
    from "1.IH" [OF False refl refl "1.prems"(1,2) this] False
    show ?thesis by (subst attacks_loop.simps) (simp add: Let_def)
  qed
qed


lemma kings_loop_all:
  assumes N: "\<And>f t p pr c d e. f < 64 \<Longrightarrow> t < 64 \<Longrightarrow> p < 12 \<Longrightarrow> pr < 12 \<Longrightarrow> c < 2 \<Longrightarrow> d < 2 \<Longrightarrow> e < 2
                \<Longrightarrow> P (encode_move f t p pr c d e 0)"
    and "piece < 12" and "all_generated P mv"
  shows "all_generated P (kings_loop side occ piece bitboard mv)"
  using assms(2-)
proof (induction side occ piece bitboard mv rule: kings_loop.induct)
  case (1 side occ piece bitboard mv)
  show ?case
  proof (cases "bitboard = 0")
    case True
    with 1 show ?thesis by simp
  next
    case False
    then have "bitScanForward bitboard < 64" by (rule bitScanForward_bit)
    with N have "all_generated P (attacks_loop (bitScanForward bitboard) piece
                   (if side = white then occ ! black else occ ! white)
                   (king_attacks (bitScanForward bitboard) AND
                        (if side = white then NOT (occ ! white) else NOT (occ ! black))) mv)"
      using "1.prems" by (rule attacks_loop_all)
    from "1.IH" [OF False refl refl refl "1.prems"(1) this] False
    show ?thesis by (subst kings_loop.simps) (simp add: Let_def)
  qed
qed

lemma pieces_loop_all:
  assumes N: "\<And>f t p pr c d e. f < 64 \<Longrightarrow> t < 64 \<Longrightarrow> p < 12 \<Longrightarrow> pr < 12 \<Longrightarrow> c < 2 \<Longrightarrow> d < 2 \<Longrightarrow> e < 2
                \<Longrightarrow> P (encode_move f t p pr c d e 0)"
    and "piece < 12" and "all_generated P mv"
  shows "all_generated P (pieces_loop occ piece bitboard mv)"
  using assms(2-)
proof (induction occ piece bitboard mv rule: pieces_loop.induct)
  case (1 occ piece bitboard mv)
  show ?case
  proof (cases "bitboard = 0")
    case True
    with 1 show ?thesis by simp
  next
    case False
    then have f: "bitScanForward bitboard < 64" by (rule bitScanForward_bit)
    define attacks where "attacks =
              (if piece = WN \<or> piece = BN then knight_attacks (bitScanForward bitboard)
               else if piece = WB \<or> piece = BB then getBishopMoves (bitScanForward bitboard) (occ ! both)
               else if piece = WR \<or> piece = BR then getRooksMoves (bitScanForward bitboard) (occ ! both)
               else if piece = WQ \<or> piece = BQ then getQueensMoves (bitScanForward bitboard) (occ ! both)
               else 0)"
    define attacks' where "attacks' = attacks AND (if piece < 6 then NOT (occ ! white) else NOT (occ ! black))"
    define mv' where "mv' = attacks_loop (bitScanForward bitboard) piece
                   (if piece < 6 then occ ! black else occ ! white) attacks' mv"
    have "all_generated P mv'"
      unfolding mv'_def using N f "1.prems" by (rule attacks_loop_all)
    from "1.IH" [OF False refl attacks_def attacks'_def mv'_def "1.prems"(1) this]
    have "all_generated P (pieces_loop occ piece (pop_bit bitboard (bitScanForward bitboard)) mv')" .
    moreover have "pieces_loop occ piece bitboard mv
                   = pieces_loop occ piece (pop_bit bitboard (bitScanForward bitboard)) mv'"
      using False
      by (subst pieces_loop.simps) (simp add: Let_def mv'_def attacks'_def attacks_def)
    ultimately show ?thesis by simp
  qed
qed

lemma generateMovesKings_all:
  assumes N: "\<And>f t p pr c d e. f < 64 \<Longrightarrow> t < 64 \<Longrightarrow> p < 12 \<Longrightarrow> pr < 12 \<Longrightarrow> c < 2 \<Longrightarrow> d < 2 \<Longrightarrow> e < 2
                \<Longrightarrow> P (encode_move f t p pr c d e 0)"
    and K: "castling board AND (if side = white then WK_c else BK_c) \<noteq> 0 \<Longrightarrow>
            \<not> get_bit (occupancy board ! both) (if side = white then f1 else f8) \<Longrightarrow>
            \<not> get_bit (occupancy board ! both) ((if side = white then f1 else f8) + 1) \<Longrightarrow>
            \<not> isSquareAttacked board ((if side = white then f1 else f8) - 1) (side XOR 1) \<Longrightarrow>
            \<not> isSquareAttacked board (if side = white then f1 else f8) (side XOR 1) \<Longrightarrow>
            P (encode_move ((if side = white then f1 else f8) - 1) ((if side = white then f1 else f8) + 1)
                 (if side = white then WK else BK) 0 0 0 0 1)"
    and Q: "castling board AND (if side = white then WQ_c else BQ_c) \<noteq> 0 \<Longrightarrow>
            \<not> get_bit (occupancy board ! both) (if side = white then d1 else d8) \<Longrightarrow>
            \<not> get_bit (occupancy board ! both) ((if side = white then d1 else d8) - 1) \<Longrightarrow>
            \<not> get_bit (occupancy board ! both) ((if side = white then d1 else d8) - 2) \<Longrightarrow>
            \<not> isSquareAttacked board ((if side = white then d1 else d8) + 1) (side XOR 1) \<Longrightarrow>
            \<not> isSquareAttacked board (if side = white then d1 else d8) (side XOR 1) \<Longrightarrow>
            P (encode_move ((if side = white then d1 else d8) + 1) ((if side = white then d1 else d8) - 1)
                 (if side = white then WK else BK) 0 0 0 0 1)"
    and mv: "all_generated P mv"
  shows "all_generated P (generateMovesKings board side occ mv)"
proof -
  define piece where "piece = (if side = white then WK else BK)"
  define ks where "ks = (if side = white then f1 else f8)"
  define qs where "qs = (if side = white then d1 else d8)"
  define mv1 where "mv1 = kings_loop side occ piece
                            (if side = white then bitboards board ! WK else bitboards board ! BK) mv"
  define mv2 where "mv2 =
     (if castling board AND (if side = white then WK_c else BK_c) \<noteq> 0
      then (if \<not> get_bit (occupancy board ! both) ks \<and> \<not> get_bit (occupancy board ! both) (ks + 1)
            then (if \<not> isSquareAttacked board (ks - 1) (side XOR 1) \<and>
                     \<not> isSquareAttacked board ks (side XOR 1)
                  then add_move mv1 (encode_move (ks - 1) (ks + 1) piece 0 0 0 0 1)
                  else mv1)
            else mv1)
      else mv1)"
  have eq: "generateMovesKings board side occ mv =
     (if castling board AND (if side = white then WQ_c else BQ_c) \<noteq> 0
      then (if \<not> get_bit (occupancy board ! both) qs \<and>
               \<not> get_bit (occupancy board ! both) (qs - 1) \<and>
               \<not> get_bit (occupancy board ! both) (qs - 2)
            then (if \<not> isSquareAttacked board (qs + 1) (side XOR 1) \<and>
                     \<not> isSquareAttacked board qs (side XOR 1)
                  then add_move mv2 (encode_move (qs + 1) (qs - 1) piece 0 0 0 0 1)
                  else mv2)
            else mv2)
      else mv2)"
    unfolding generateMovesKings_def Let_def mv2_def mv1_def piece_def ks_def qs_def
    by (rule refl)
  have p: "piece < 12" by (simp add: piece_def)
  have 1: "all_generated P mv1"
    unfolding mv1_def using N p mv by (rule kings_loop_all)
  have 2: "all_generated P mv2"
    unfolding mv2_def using 1 K
    by (auto intro!: add_move_all simp: ks_def piece_def)
  show ?thesis
    unfolding eq using 2 Q
    by (auto intro!: add_move_all simp: qs_def piece_def)
qed


lemma generateMovesPawns_all:
  assumes N: "\<And>f t p pr c d e. f < 64 \<Longrightarrow> t < 64 \<Longrightarrow> p < 12 \<Longrightarrow> pr < 12 \<Longrightarrow> c < 2 \<Longrightarrow> d < 2 \<Longrightarrow> e < 2
                \<Longrightarrow> P (encode_move f t p pr c d e 0)"
    and "all_generated P mv"
  shows "all_generated P (generateMovesPawns board side occ mv)"
  unfolding generateMovesPawns_def Let_def using assms by (rule pawns_loop_all)

lemma generateMovesPiece_all:
  assumes N: "\<And>f t p pr c d e. f < 64 \<Longrightarrow> t < 64 \<Longrightarrow> p < 12 \<Longrightarrow> pr < 12 \<Longrightarrow> c < 2 \<Longrightarrow> d < 2 \<Longrightarrow> e < 2
                \<Longrightarrow> P (encode_move f t p pr c d e 0)"
    and "piece < 12" and "all_generated P mv"
  shows "all_generated P (generateMovesPiece board occ piece mv)"
  unfolding generateMovesPiece_def using assms by (rule pieces_loop_all)

lemma generate_moves_all:
  assumes N: "\<And>f t p pr c d e. f < 64 \<Longrightarrow> t < 64 \<Longrightarrow> p < 12 \<Longrightarrow> pr < 12 \<Longrightarrow> c < 2 \<Longrightarrow> d < 2 \<Longrightarrow> e < 2
                \<Longrightarrow> P (encode_move f t p pr c d e 0)"
    and K: "castling board AND (if mover board = white then WK_c else BK_c) \<noteq> 0 \<Longrightarrow>
            \<not> get_bit (occupancy board ! both) (if mover board = white then f1 else f8) \<Longrightarrow>
            \<not> get_bit (occupancy board ! both) ((if mover board = white then f1 else f8) + 1) \<Longrightarrow>
            \<not> isSquareAttacked board ((if mover board = white then f1 else f8) - 1) (mover board XOR 1) \<Longrightarrow>
            \<not> isSquareAttacked board (if mover board = white then f1 else f8) (mover board XOR 1) \<Longrightarrow>
            P (encode_move ((if mover board = white then f1 else f8) - 1)
                 ((if mover board = white then f1 else f8) + 1)
                 (if mover board = white then WK else BK) 0 0 0 0 1)"
    and Q: "castling board AND (if mover board = white then WQ_c else BQ_c) \<noteq> 0 \<Longrightarrow>
            \<not> get_bit (occupancy board ! both) (if mover board = white then d1 else d8) \<Longrightarrow>
            \<not> get_bit (occupancy board ! both) ((if mover board = white then d1 else d8) - 1) \<Longrightarrow>
            \<not> get_bit (occupancy board ! both) ((if mover board = white then d1 else d8) - 2) \<Longrightarrow>
            \<not> isSquareAttacked board ((if mover board = white then d1 else d8) + 1) (mover board XOR 1) \<Longrightarrow>
            \<not> isSquareAttacked board (if mover board = white then d1 else d8) (mover board XOR 1) \<Longrightarrow>
            P (encode_move ((if mover board = white then d1 else d8) + 1)
                 ((if mover board = white then d1 else d8) - 1)
                 (if mover board = white then WK else BK) 0 0 0 0 1)"
  shows "all_generated P (generate_moves board mv)"
proof -
  have 0: "all_generated P (mv\<lparr>moves_count := 0\<rparr>)" by (simp add: all_generated_def)
  define occ where "occ = occupancy board"
  define side where "side = mover board"
  define mv1 where "mv1 = generateMovesPawns board side occ (mv\<lparr>moves_count := 0\<rparr>)"
  define mv2 where "mv2 = generateMovesKings board side occ mv1"
  have 1: "all_generated P mv1" unfolding mv1_def using N 0 by (rule generateMovesPawns_all)
  have 2: "all_generated P mv2" unfolding mv2_def
    using N K [folded side_def] Q [folded side_def] 1 by (rule generateMovesKings_all)
  have P4: "all_generated P (generateMovesPiece board occ p4
              (generateMovesPiece board occ p3
                (generateMovesPiece board occ p2 (generateMovesPiece board occ p1 mv2))))"
    if "p1 < 12" "p2 < 12" "p3 < 12" "p4 < 12" for p1 p2 p3 p4
    using that 2 by (intro generateMovesPiece_all N)
  show ?thesis
  proof (cases "color board = 0")
    case True
    then have "generate_moves board mv = generateMovesPiece board occ WQ
              (generateMovesPiece board occ WR
                (generateMovesPiece board occ WB (generateMovesPiece board occ WN mv2)))"
      by (simp add: generate_moves_def Let_def mv2_def mv1_def side_def mover_def occ_def)
    with P4 [of WN WB WR WQ] show ?thesis by simp
  next
    case False
    then have "generate_moves board mv = generateMovesPiece board occ BQ
              (generateMovesPiece board occ BR
                (generateMovesPiece board occ BB (generateMovesPiece board occ BN mv2)))"
      by (simp add: generate_moves_def Let_def mv2_def mv1_def side_def mover_def occ_def)
    with P4 [of BN BB BR BQ] show ?thesis by simp
  qed
qed

lemma castling_moves:
  "encode_move 60 62 5 0 0 0 0 (Suc 0) = 8413116"
  "encode_move 60 58 5 0 0 0 0 (Suc 0) = 8412860"
  "encode_move 4 6 11 0 0 0 0 (Suc 0) = 8434052"
  "encode_move 4 2 11 0 0 0 0 (Suc 0) = 8433796"
  by (simp_all add: encode_move_def)

lemma castling_moves_decode:
  "get_move_castling 8413116 \<noteq> 0" "get_move_source 8413116 = 60" "get_move_target 8413116 = 62"
  "get_move_castling 8412860 \<noteq> 0" "get_move_source 8412860 = 60" "get_move_target 8412860 = 58"
  "get_move_castling 8434052 \<noteq> 0" "get_move_source 8434052 = 4" "get_move_target 8434052 = 6"
  "get_move_castling 8433796 \<noteq> 0" "get_move_source 8433796 = 4" "get_move_target 8433796 = 2"
  by (simp_all add: get_move_castling_def get_move_source_def get_move_target_def)

lemma king_home_scan:
  "bitScanForward 1152921504606846976 = 60" "bitScanForward 16 = 4"
  by code_simp+

text \<open>
  C8, as the code has it.  A castling move that the generator emits has as its source
  the e-file square of the mover's back rank, e1 for white and e8 for black (the f-square
  minus one, the d-square plus one), and as its target the g- or c-square of that rank.
  That source is the king's home square: while the king's bitboard is that single
  square, \<open>get_move_source\<close> of the castling move is the king's square.
\<close>

theorem castling_source:
  assumes "m \<in> set (generated board mv)" and "get_move_castling m \<noteq> 0"
  shows "get_move_source m = (if color board = 0 then e1 else e8) \<and>
         get_move_target m \<in> (if color board = 0 then {g1, c1} else {g8, c8}) \<and>
         (bitboards board ! (if color board = 0 then WK else BK)
            = push_bit (if color board = 0 then e1 else e8) 1 \<longrightarrow>
          get_move_source m = bitScanForward (bitboards board ! (if color board = 0 then WK else BK)))"
proof -
  let ?P = "\<lambda>m. get_move_castling m \<noteq> 0 \<longrightarrow>
              get_move_source m = (if color board = 0 then e1 else e8) \<and>
              get_move_target m \<in> (if color board = 0 then {g1, c1} else {g8, c8})"
  have "all_generated ?P (generate_moves board mv)"
  proof (rule generate_moves_all)
    fix f t p pr c d e :: nat
    assume "f < 64" "t < 64" "p < 12" "pr < 12" "c < 2" "d < 2" "e < 2"
    then have "get_move_castling (encode_move f t p pr c d e 0) = 0"
      by (intro castling_flag_clear) simp_all
    then show "?P (encode_move f t p pr c d e 0)" by simp
  next
    show "?P (encode_move ((if mover board = white then f1 else f8) - 1)
                 ((if mover board = white then f1 else f8) + 1)
                 (if mover board = white then WK else BK) 0 0 0 0 1)"
      by (simp add: mover_def castling_moves castling_moves_decode)
  next
    show "?P (encode_move ((if mover board = white then d1 else d8) + 1)
                 ((if mover board = white then d1 else d8) - 1)
                 (if mover board = white then WK else BK) 0 0 0 0 1)"
      by (simp add: mover_def castling_moves castling_moves_decode)
  qed
  with assms have "?P m" by (simp add: all_generated_def generated_def)
  with assms(2) show ?thesis by (auto simp: king_home_scan)
qed

theorem castling_source_witness:
  "8413116 \<in> set (generated kr_position no_moves) \<and> get_move_castling 8413116 \<noteq> 0 \<and>
   get_move_source 8413116 = e1 \<and> get_move_target 8413116 = g1 \<and>
   get_move_source 8413116 = bitScanForward (bitboards kr_position ! WK)"
proof -
  have g: "8413116 \<in> set (generated kr_position no_moves)"
    by (simp add: generated_kr_position)
  have c: "get_move_castling 8413116 \<noteq> 0" by (simp add: get_move_castling_def)
  have k: "bitboards kr_position ! WK = push_bit e1 1" by (simp add: kr_position_def)
  have w: "color kr_position = 0" by (simp add: kr_position_def)
  from castling_source [OF g c] g c k w show ?thesis
    by (simp add: castling_moves_decode)
qed

text \<open>
  The claim as the specification states it fails: in the position \<open>kr_position\<close> the
  generator emits white's king-side castling move, and its source, square 60, is the
  square on which the white king stands.
\<close>

theorem castling_source_counterexample:
  "8413116 \<in> set (generated kr_position no_moves) \<and> get_move_castling 8413116 \<noteq> 0 \<and>
   get_move_source 8413116 = 60 \<and> bitScanForward (bitboards kr_position ! WK) = 60"
proof -
  have "8413116 \<in> set (generated kr_position no_moves)"
    by (simp add: generated_kr_position)
  moreover have "bitScanForward (bitboards kr_position ! WK) = 60"
    by (simp add: kr_position_def king_home_scan)
  ultimately show ?thesis by (simp add: castling_moves_decode)
qed

section \<open>Stale slots of the move list\<close>

text \<open>
  C7.  A game first generates the moves of the position \<open>knight_ending\<close> (a
  \<open>parseMove\<close> there) and then parses \<open>a1b3\<close> in the position \<open>pawn_ending\<close>, which
  has no knight.  The generator leaves six moves, none from a1, and the count 6; slot 6
  of the array still holds the knight move a1-b3 of the earlier position.  The loop of
  \<open>parseMove\<close> runs over all 265 slots and returns that move, not the sentinel 0.
\<close>

theorem parseMove_stale_slot:
  "fst (parseMove pawn_ending (generate_moves knight_ending no_moves) ''a1b3'') = 6776 \<and>
   moves_count (snd (parseMove pawn_ending (generate_moves knight_ending no_moves) ''a1b3'')) = 6 \<and>
   generated pawn_ending (generate_moves knight_ending no_moves)
     = [2868, 2099508, 23804, 23932, 24316, 24444] \<and>
   get_move_source 6776 = 56 \<and> get_move_target 6776 = 41 \<and> get_move_piece 6776 = WN"
proof -
  have "fst (parseMove pawn_ending (generate_moves knight_ending no_moves) ''a1b3'') = 6776 \<and>
        moves_count (snd (parseMove pawn_ending (generate_moves knight_ending no_moves) ''a1b3''))
          = 6"
    unfolding parseMove_def Let_def generate_knight_ending generate_pawn_ending_stale
    by code_simp
  moreover have "generated pawn_ending (generate_moves knight_ending no_moves)
                   = [2868, 2099508, 23804, 23932, 24316, 24444]"
    unfolding generated_def generate_knight_ending generate_pawn_ending_stale by simp
  moreover have "get_move_source 6776 = 56 \<and> get_move_target 6776 = 41 \<and>
                 get_move_piece 6776 = WN"
    by (simp add: get_move_source_def get_move_target_def get_move_piece_def)
  ultimately show ?thesis by (simp only: simp_thms)
qed

end
